theory Spec2Isabelle
  imports Main "HOL-Library.Multiset"
begin

section \<open>The migration engine of corbaltcode/go-libraries\<close>

text \<open>
  A shallow embedding of the package \<open>migrations\<close>: the migration model, the ledger table
  \<open>migration\<close>, the verifier \<open>verifyMigrations\<close>, the two transactions \<open>migrateOne\<close> and
  \<open>rollbackOne\<close>, the loops \<open>Migrate\<close> and \<open>Rollback\<close>, and the round-trip tester
  \<open>SchemaTest\<close> with its schema dumper.

  The database is external to the Go code. It is modelled as a value: the rows of the
  ledger table (absent when the table does not exist) and everything else, the schema,
  of an arbitrary type \<open>'s\<close>. A transaction works on a copy of that value, which
  \<open>Commit\<close> installs and \<open>Rollback\<close> discards.
\<close>

subsection \<open>Data model\<close>

text \<open>A ledger row: the columns \<open>"index"\<close> and \<open>name\<close> of the table \<open>migration\<close>.\<close>

type_synonym row = "int \<times> string"

record 's database =
  migration_table :: "row list option"
  schema :: 's

text \<open>
  \<open>type Migration interface { DoMigration(*sqlx.Tx) error }\<close> with its two carriers. A
  custom migration is a Go function of the transaction: it may do anything to the
  transaction's view of the database, the ledger table included.
\<close>

datatype 's migration =
    StaticMigration "string list"
  | CustomMigration "'s database \<Rightarrow> string + 's database"

text \<open>\<open>type NamedMigration struct\<close>; a nil \<open>Reverse\<close> is \<open>None\<close>.\<close>

record 's NamedMigration =
  Name :: string
  Migration :: "'s migration"
  Reverse :: "'s migration option"

text \<open>
  The errors of the package. \<open>errors.New\<close> keeps its message; each \<open>fmt.Errorf\<close> is a
  constructor that carries the values its format string prints.
\<close>

datatype error =
    errors_New string
  | ErrCheckingTable string
  | ErrCreatingTable string
  | ErrFetching string
  | DuplicateOrNegativeIndex int
  | UnknownMigrationInLedger int string
  | MigrationSkipped int string
  | NameMismatch int string string
  | ErrStartingTransaction string
  | ErrLockingTable string
  | MigrationFailed int string string
  | ErrRecording int string string
  | ErrCommitting string
  | InvalidTarget int
  | NotYetApplied int
  | NoReverse int string
  | RollbackFailed int string string
  | ErrDeleting int string string
  | ErrConnecting string
  | ErrCheckingTables string
  | SetupFailed error
  | ErrTempDir string
  | ErrWritingPgpass string
  | ErrPgDump string string
  | DumpFailed error
  | MigrateFailed string error
  | RollbackToFailed string error
  | RollbackMismatch string
  | RemigrateMismatch string
  | Panic string

text \<open>
  What the code asks of the outside world, in the order it asks. The trace of these
  events is part of the state, so that a statement such as "before any dump is taken"
  can be stated.
\<close>

datatype event =
    EvConnect string
  | EvCatalogQuery
  | EvCheckTable
  | EvCreateTable
  | EvBegin
  | EvLock
  | EvSelect
  | EvForward nat
  | EvReverse nat
  | EvInsert int string
  | EvDelete int
  | EvCommit
  | EvRollback
  | EvMkdirTemp
  | EvWritePgpass string
  | EvPgDump "string list"
  | EvRemoveAll

record 's world =
  store :: "'s database"
  trace :: "event list"

text \<open>
  The parts of the outside world that the Go code calls and does not define:
  \<^item> \<open>exec\<close>: what one SQL statement of a static migration does to the transaction's view
    (\<open>tx.Exec(sql)\<close>), or the error it raises;
  \<^item> \<open>fault\<close>: whether the call that the last event of the trace records fails for a reason
    outside the model (a lost connection, a full disk), and with which message;
  \<^item> \<open>cut\<close>: whether the row stream of the ledger query breaks (\<open>rows.Scan\<close>, \<open>rows.Err\<close>),
    after how many rows, and with which message;
  \<^item> \<open>relations\<close>: whether the schema holds a relation outside the system schemas;
  \<^item> \<open>pg_dump\<close>: the output of the \<open>pg_dump\<close> binary for an argument vector, a database and
    an invocation (the trace so far).
\<close>

record 's env =
  exec :: "string \<Rightarrow> 's database \<Rightarrow> string + 's database"
  fault :: "event list \<Rightarrow> string option"
  cut :: "event list \<Rightarrow> (nat \<times> string) option"
  relations :: "'s \<Rightarrow> bool"
  pg_dump :: "string list \<Rightarrow> 's database \<Rightarrow> event list \<Rightarrow> string"

definition emit :: "event \<Rightarrow> 's world \<Rightarrow> 's world" where
  "emit e w = w\<lparr>trace := trace w @ [e]\<rparr>"

subsection \<open>Migrations\<close>

text \<open>\<open>func (m StaticMigration) DoMigration\<close>: the statements in order, the first failure aborts.\<close>

fun DoStatic ::
  "(string \<Rightarrow> 's database \<Rightarrow> string + 's database) \<Rightarrow> string list \<Rightarrow> 's database
    \<Rightarrow> string + 's database" where
  "DoStatic ex [] tx = Inr tx"
| "DoStatic ex (sql # rest) tx =
     (case ex sql tx of Inl err \<Rightarrow> Inl err | Inr tx' \<Rightarrow> DoStatic ex rest tx')"

fun DoMigration ::
  "(string \<Rightarrow> 's database \<Rightarrow> string + 's database) \<Rightarrow> 's migration \<Rightarrow> 's database
    \<Rightarrow> string + 's database" where
  "DoMigration ex (StaticMigration sqls) tx = DoStatic ex sqls tx"
| "DoMigration ex (CustomMigration f) tx = f tx"

subsection \<open>The ledger table\<close>

text \<open>
  \<open>SELECT "index", name FROM migration ORDER BY "index" ASC\<close>: the rows by ascending
  index, or the error of the query; the row stream may break after some rows.
\<close>

definition query_ledger ::
  "'s env \<Rightarrow> event list \<Rightarrow> 's database \<Rightarrow> string + (row list \<times> string option)" where
  "query_ledger env tr tx =
     (case fault env tr of
        Some c \<Rightarrow> Inl c
      | None \<Rightarrow>
          (case migration_table tx of
             None \<Rightarrow> Inl ''relation migration does not exist''
           | Some rows \<Rightarrow>
               (case cut env tr of
                  None \<Rightarrow> Inr (sort_key fst rows, None)
                | Some (n, c) \<Rightarrow> Inr (take n (sort_key fst rows), Some c))))"

text \<open>\<open>LOCK TABLE migration\<close>.\<close>

definition lock_table :: "'s env \<Rightarrow> event list \<Rightarrow> 's database \<Rightarrow> string option" where
  "lock_table env tr tx =
     (case fault env tr of
        Some c \<Rightarrow> Some c
      | None \<Rightarrow>
          (case migration_table tx of
             None \<Rightarrow> Some ''relation migration does not exist''
           | Some rows \<Rightarrow> None))"

text \<open>
  \<open>INSERT INTO migration ("index", name) VALUES ($1, $2)\<close>; the table declares
  \<open>UNIQUE ("index")\<close>.
\<close>

definition insert_row ::
  "'s env \<Rightarrow> event list \<Rightarrow> 's database \<Rightarrow> row \<Rightarrow> string + 's database" where
  "insert_row env tr tx r =
     (case fault env tr of
        Some c \<Rightarrow> Inl c
      | None \<Rightarrow>
          (case migration_table tx of
             None \<Rightarrow> Inl ''relation migration does not exist''
           | Some rows \<Rightarrow>
               if fst r \<in> fst ` set rows
               then Inl ''duplicate key value violates unique constraint''
               else Inr (tx\<lparr>migration_table := Some (rows @ [r])\<rparr>)))"

text \<open>\<open>DELETE FROM migration WHERE "index"=$1\<close>.\<close>

definition delete_row ::
  "'s env \<Rightarrow> event list \<Rightarrow> 's database \<Rightarrow> int \<Rightarrow> string + 's database" where
  "delete_row env tr tx i =
     (case fault env tr of
        Some c \<Rightarrow> Inl c
      | None \<Rightarrow>
          (case migration_table tx of
             None \<Rightarrow> Inl ''relation migration does not exist''
           | Some rows \<Rightarrow>
               Inr (tx\<lparr>migration_table := Some (filter (\<lambda>r. fst r \<noteq> i) rows)\<rparr>)))"

text \<open>
  \<open>func ensureMigrationsTableExists\<close>: the existence check in \<open>information_schema\<close>, then
  \<open>CREATE TABLE migration\<close> when the table is not there. Both run on the connection,
  outside any transaction.
\<close>

definition ensureMigrationsTableExists :: "'s env \<Rightarrow> 's world \<Rightarrow> 's world \<times> error option" where
  "ensureMigrationsTableExists env w =
     (let w1 = emit EvCheckTable w in
      case fault env (trace w1) of
        Some c \<Rightarrow> (w1, Some (ErrCheckingTable c))
      | None \<Rightarrow>
          if migration_table (store w1) \<noteq> None then (w1, None)
          else
            (let w2 = emit EvCreateTable w1 in
             case fault env (trace w2) of
               Some c \<Rightarrow> (w2, Some (ErrCreatingTable c))
             | None \<Rightarrow> (w2\<lparr>store := (store w2)\<lparr>migration_table := Some []\<rparr>\<rparr>, None)))"

subsection \<open>The verifier\<close>

text \<open>
  The loop \<open>for rows.Next()\<close> of \<open>verifyMigrations\<close>. \<open>first\<close> is
  \<open>firstUnappliedMigrationIndex\<close>: it starts at 0 and only counts up, so it is a natural
  number here. \<open>migrations[first]\<close> is read only after \<open>first \<le> idx < len(migrations)\<close>.
  The last argument is the error of the row stream, if it broke. The three
  "Error fetching ... migrations" returns of the source (the query, \<open>rows.Scan\<close>,
  \<open>rows.Err\<close>) are the one constructor \<open>ErrFetching\<close>.
\<close>

fun verifyLoop ::
  "'s NamedMigration list \<Rightarrow> nat \<Rightarrow> row list \<Rightarrow> string option \<Rightarrow> error + nat" where
  "verifyLoop ms first [] None = Inr first"
| "verifyLoop ms first [] (Some c) = Inl (ErrFetching c)"
| "verifyLoop ms first ((idx, nm) # rest) fin =
     (if idx < int first then Inl (DuplicateOrNegativeIndex idx)
      else if idx \<ge> int (length ms) then Inl (UnknownMigrationInLedger idx nm)
      else
        (let nextMigrationName = Name (ms ! first) in
         if idx > int first then Inl (MigrationSkipped (int first) nextMigrationName)
         else if nm \<noteq> Name (ms ! first) then Inl (NameMismatch idx nextMigrationName nm)
         else verifyLoop ms (first + 1) rest fin))"

definition verifyMigrations ::
  "'s env \<Rightarrow> 's NamedMigration list \<Rightarrow> event list \<Rightarrow> 's database \<Rightarrow> error + nat" where
  "verifyMigrations env ms tr tx =
     (case query_ledger env tr tx of
        Inl c \<Rightarrow> Inl (ErrFetching c)
      | Inr (rows, fin) \<Rightarrow> verifyLoop ms 0 rows fin)"

text \<open>
  The ledger that records exactly the first \<open>k\<close> declared migrations, in index order.
\<close>

definition ledger_prefix :: "'s NamedMigration list \<Rightarrow> nat \<Rightarrow> row list" where
  "ledger_prefix ms k = map (\<lambda>i. (int i, Name (ms ! i))) [0..<k]"

text \<open>
  The verdict on one row as the specification words it (section 4.C, step 3), with
  \<open>expected\<close> the running counter: the error of the first case that applies, or none.
\<close>

definition row_verdict :: "'s NamedMigration list \<Rightarrow> nat \<Rightarrow> row \<Rightarrow> error option" where
  "row_verdict ms expected r =
     (if fst r < int expected then Some (DuplicateOrNegativeIndex (fst r))
      else if fst r \<ge> int (length ms) then Some (UnknownMigrationInLedger (fst r) (snd r))
      else if fst r > int expected
        then Some (MigrationSkipped (int expected) (Name (ms ! expected)))
      else if snd r \<noteq> Name (ms ! nat (fst r))
        then Some (NameMismatch (int expected) (Name (ms ! nat (fst r))) (snd r))
      else None)"

subsection \<open>One migration, one transaction\<close>

text \<open>
  \<open>func migrateOne\<close>. The deferred function rolls the transaction back on every return
  that did not set \<open>committed\<close>; a failure of that rollback is only logged. The flag is
  set before \<open>tx.Commit()\<close>, so a failed commit is not followed by a rollback; the
  transaction is lost with it. The result is the pair \<open>(bool, error)\<close> of the source:
  \<open>Inr True\<close> after a migration was applied and recorded, \<open>Inr False\<close> when nothing was
  left to apply.
\<close>

definition migrateOne ::
  "'s env \<Rightarrow> 's NamedMigration list \<Rightarrow> 's world \<Rightarrow> 's world \<times> (error + bool)" where
  "migrateOne env ms w =
     (let w1 = emit EvBegin w in
      case fault env (trace w1) of
        Some c \<Rightarrow> (w1, Inl (ErrStartingTransaction c))
      | None \<Rightarrow>
     (let tx = store w1; w2 = emit EvLock w1 in
      case lock_table env (trace w2) tx of
        Some c \<Rightarrow> (emit EvRollback w2, Inl (ErrLockingTable c))
      | None \<Rightarrow>
     (let w3 = emit EvSelect w2 in
      case verifyMigrations env ms (trace w3) tx of
        Inl e \<Rightarrow> (emit EvRollback w3, Inl e)
      | Inr firstUnappliedIndex \<Rightarrow>
          if firstUnappliedIndex \<ge> length ms then (emit EvRollback w3, Inr False)
          else
     (let migration = ms ! firstUnappliedIndex;
          w4 = emit (EvForward firstUnappliedIndex) w3 in
      case DoMigration (exec env) (Migration migration) tx of
        Inl c \<Rightarrow>
          (emit EvRollback w4,
           Inl (MigrationFailed (int firstUnappliedIndex) (Name migration) c))
      | Inr tx1 \<Rightarrow>
     (let w5 = emit (EvInsert (int firstUnappliedIndex) (Name migration)) w4 in
      case insert_row env (trace w5) tx1 (int firstUnappliedIndex, Name migration) of
        Inl c \<Rightarrow>
          (emit EvRollback w5,
           Inl (ErrRecording (int firstUnappliedIndex) (Name migration) c))
      | Inr tx2 \<Rightarrow>
     (let w6 = emit EvCommit w5 in
      case fault env (trace w6) of
        Some c \<Rightarrow> (w6, Inl (ErrCommitting c))
      | None \<Rightarrow> (w6\<lparr>store := tx2\<rparr>, Inr True)))))))"

text \<open>
  \<open>func rollbackOne\<close>. \<open>index = firstUnappliedIndex - 1\<close> is computed only after
  \<open>0 \<le> rollBackThroughIndex < firstUnappliedIndex\<close>, so it is a natural number, and
  \<open>migrations[index]\<close> is in range because the verifier never returns more than
  \<open>len(migrations)\<close>.
\<close>

definition rollbackOne ::
  "'s env \<Rightarrow> 's NamedMigration list \<Rightarrow> int \<Rightarrow> 's world \<Rightarrow> 's world \<times> (error + nat)" where
  "rollbackOne env ms rollBackThroughIndex w =
     (let w1 = emit EvBegin w in
      case fault env (trace w1) of
        Some c \<Rightarrow> (w1, Inl (ErrStartingTransaction c))
      | None \<Rightarrow>
     (let tx = store w1; w2 = emit EvLock w1 in
      case lock_table env (trace w2) tx of
        Some c \<Rightarrow> (emit EvRollback w2, Inl (ErrLockingTable c))
      | None \<Rightarrow>
     (let w3 = emit EvSelect w2 in
      case verifyMigrations env ms (trace w3) tx of
        Inl e \<Rightarrow> (emit EvRollback w3, Inl e)
      | Inr firstUnappliedIndex \<Rightarrow>
          if rollBackThroughIndex < 0
            then (emit EvRollback w3, Inl (InvalidTarget rollBackThroughIndex))
          else if rollBackThroughIndex \<ge> int firstUnappliedIndex
            then (emit EvRollback w3, Inl (NotYetApplied rollBackThroughIndex))
          else
     (let index = firstUnappliedIndex - 1;
          migration = ms ! index in
      case Reverse migration of
        None \<Rightarrow> (emit EvRollback w3, Inl (NoReverse (int index) (Name migration)))
      | Some reverse \<Rightarrow>
     (let w4 = emit (EvReverse index) w3 in
      case DoMigration (exec env) reverse tx of
        Inl c \<Rightarrow>
          (emit EvRollback w4, Inl (RollbackFailed (int index) (Name migration) c))
      | Inr tx1 \<Rightarrow>
     (let w5 = emit (EvDelete (int index)) w4 in
      case delete_row env (trace w5) tx1 (int index) of
        Inl c \<Rightarrow>
          (emit EvRollback w5, Inl (ErrDeleting (int index) (Name migration) c))
      | Inr tx2 \<Rightarrow>
     (let w6 = emit EvCommit w5 in
      case fault env (trace w6) of
        Some c \<Rightarrow> (w6, Inl (ErrCommitting c))
      | None \<Rightarrow> (w6\<lparr>store := tx2\<rparr>, Inr index))))))))"

text \<open>
  What the first three calls of either transaction (\<open>Beginx\<close>, \<open>LOCK TABLE\<close>,
  \<open>verifyMigrations\<close>) come to in a world: the first unapplied index, or the error that
  ends the transaction before it has touched anything.
\<close>

definition begin_lock_verify ::
  "'s env \<Rightarrow> 's NamedMigration list \<Rightarrow> 's world \<Rightarrow> error + nat" where
  "begin_lock_verify env ms w =
     (case fault env (trace w @ [EvBegin]) of
        Some c \<Rightarrow> Inl (ErrStartingTransaction c)
      | None \<Rightarrow>
          (case lock_table env (trace w @ [EvBegin, EvLock]) (store w) of
             Some c \<Rightarrow> Inl (ErrLockingTable c)
           | None \<Rightarrow> verifyMigrations env ms (trace w @ [EvBegin, EvLock, EvSelect]) (store w)))"

text \<open>
  The first unapplied index that a fault-free verifier finds in a database: the measure
  of the two loops below.
\<close>

definition applied :: "'s NamedMigration list \<Rightarrow> 's database \<Rightarrow> nat option" where
  "applied ms db =
     (case migration_table db of
        None \<Rightarrow> None
      | Some rows \<Rightarrow>
          (case verifyLoop ms 0 (sort_key fst rows) None of
             Inl e \<Rightarrow> None
           | Inr k \<Rightarrow> Some k))"

text \<open>The disagreement errors of the verifier.\<close>

fun is_disagreement :: "error \<Rightarrow> bool" where
  "is_disagreement (DuplicateOrNegativeIndex i) = True"
| "is_disagreement (UnknownMigrationInLedger i n) = True"
| "is_disagreement (MigrationSkipped i n) = True"
| "is_disagreement (NameMismatch i d n) = True"
| "is_disagreement e = False"

text \<open>The rows that record the \<open>p\<close> declared migrations from index \<open>n\<close> on.\<close>

definition rows_from :: "'s NamedMigration list \<Rightarrow> nat \<Rightarrow> nat \<Rightarrow> row list" where
  "rows_from ms n p = map (\<lambda>i. (int i, Name (ms ! i))) [n..<n + p]"

subsection \<open>Sample data\<close>

text \<open>
  An environment without faults whose schema is the list of the SQL statements run so
  far, where the statement \<open>SELECT 1/0\<close> fails; the declared list of the package's test
  \<open>TestVerifyMigrations\<close> ("Some migrations in DB, no migrations to do") with a database
  that records both; a list whose second migration fails halfway.
\<close>

definition sql_log_env :: "string list env" where
  "sql_log_env =
     \<lparr>exec = (\<lambda>sql tx. if sql = ''SELECT 1/0'' then Inl ''division by zero''
                       else Inr (tx\<lparr>schema := schema tx @ [sql]\<rparr>)),
      fault = (\<lambda>tr. None),
      cut = (\<lambda>tr. None),
      relations = (\<lambda>s. s \<noteq> []),
      pg_dump = (\<lambda>args db tr. concat (schema db))\<rparr>"

definition test_migrations :: "string list NamedMigration list" where
  "test_migrations =
     [\<lparr>Name = ''a migration'', Migration = StaticMigration [], Reverse = None\<rparr>,
      \<lparr>Name = ''another migration'', Migration = StaticMigration [], Reverse = None\<rparr>]"

definition test_database :: "string list database" where
  "test_database =
     \<lparr>migration_table = Some [(1, ''another migration''), (0, ''a migration'')], schema = []\<rparr>"

definition test_world :: "string list world" where
  "test_world = \<lparr>store = test_database, trace = []\<rparr>"

definition empty_world :: "string list world" where
  "empty_world = \<lparr>store = \<lparr>migration_table = Some [], schema = []\<rparr>, trace = []\<rparr>"

definition two_migrations :: "string list NamedMigration list" where
  "two_migrations =
     [\<lparr>Name = ''Create T1'', Migration = StaticMigration [''CREATE TABLE t1''],
       Reverse = Some (StaticMigration [''DROP TABLE t1''])\<rparr>,
      \<lparr>Name = ''Broken'', Migration = StaticMigration [''CREATE TABLE t2'', ''SELECT 1/0''],
       Reverse = None\<rparr>]"

section \<open>The verifier\<close>

lemma verifyLoop_step:
  "verifyLoop ms n (r # rest) fin =
     (case row_verdict ms n r of Some e \<Rightarrow> Inl e | None \<Rightarrow> verifyLoop ms (n + 1) rest fin)"
proof -
  obtain idx nm where r: "r = (idx, nm)" by (cases r)
  show ?thesis
  proof (cases "idx = int n")
    case True
    then show ?thesis by (simp add: r row_verdict_def Let_def)
  next
    case False
    then show ?thesis by (simp add: r row_verdict_def Let_def)
  qed
qed

lemma row_verdict_None_iff:
  "row_verdict ms n r = None \<longleftrightarrow> (n < length ms \<and> r = (int n, Name (ms ! n)))"
  by (cases r) (auto simp: row_verdict_def)

lemma row_verdict_disagreement: "row_verdict ms n r = Some e \<Longrightarrow> is_disagreement e"
  by (auto simp: row_verdict_def split: if_splits)

lemma rows_from_0 [simp]: "rows_from ms n 0 = []"
  by (simp add: rows_from_def)

lemma rows_from_Suc:
  "rows_from ms n (Suc p) = (int n, Name (ms ! n)) # rows_from ms (n + 1) p"
  by (simp add: rows_from_def upt_conv_Cons del: upt_Suc)

lemma length_rows_from [simp]: "length (rows_from ms n p) = p"
  by (simp add: rows_from_def)

lemma ledger_prefix_rows_from: "ledger_prefix ms k = rows_from ms 0 k"
  by (simp add: ledger_prefix_def rows_from_def)

lemma verifyLoop_Inr_iff:
  "n \<le> length ms \<Longrightarrow>
   verifyLoop ms n rows None = Inr k \<longleftrightarrow>
     (n \<le> k \<and> k \<le> length ms \<and> rows = rows_from ms n (k - n))"
proof (induction rows arbitrary: n)
  case Nil
  then show ?case by (auto simp: rows_from_def)
next
  case (Cons r rows)
  show ?case
  proof (cases "row_verdict ms n r")
    case None
    then have r: "n < length ms" "r = (int n, Name (ms ! n))"
      by (simp_all add: row_verdict_None_iff)
    have "verifyLoop ms n (r # rows) None = Inr k
        \<longleftrightarrow> verifyLoop ms (n + 1) rows None = Inr k"
      by (simp add: verifyLoop_step None del: verifyLoop.simps)
    also have "\<dots> \<longleftrightarrow> (n + 1 \<le> k \<and> k \<le> length ms \<and> rows = rows_from ms (n + 1) (k - (n + 1)))"
      using r(1) by (intro Cons.IH) simp
    also have "\<dots> \<longleftrightarrow> (n \<le> k \<and> k \<le> length ms \<and> r # rows = rows_from ms n (k - n))"
    proof (cases "n < k")
      case True
      then have "k - n = Suc (k - (n + 1))" by simp
      then show ?thesis using True r(2) by (simp add: rows_from_Suc)
    next
      case False
      then show ?thesis by simp
    qed
    finally show ?thesis .
  next
    case (Some e)
    have "verifyLoop ms n (r # rows) None = Inl e"
      by (simp add: verifyLoop_step Some del: verifyLoop.simps)
    moreover have "\<not> (n \<le> k \<and> k \<le> length ms \<and> r # rows = rows_from ms n (k - n))"
    proof
      assume h: "n \<le> k \<and> k \<le> length ms \<and> r # rows = rows_from ms n (k - n)"
      then have "n < k" by (cases "n < k") auto
      then have "k - n = Suc (k - (n + 1))" by simp
      with h have "r = (int n, Name (ms ! n))" by (simp add: rows_from_Suc)
      moreover have "n < length ms" using h \<open>n < k\<close> by simp
      ultimately have "row_verdict ms n r = None" by (simp add: row_verdict_None_iff)
      with Some show False by simp
    qed
    ultimately show ?thesis by simp
  qed
qed

lemma verifyLoop_Inl_iff:
  "n \<le> length ms \<Longrightarrow> verifyLoop ms n rows None = Inl e \<longleftrightarrow>
     (\<exists>p r rest. rows = rows_from ms n p @ r # rest \<and> n + p \<le> length ms \<and>
        row_verdict ms (n + p) r = Some e)"
  (is "_ \<Longrightarrow> ?L n rows \<longleftrightarrow> ?R n rows")
proof (induction rows arbitrary: n)
  case Nil
  then show ?case by simp
next
  case (Cons x rows)
  show ?case
  proof (cases "row_verdict ms n x")
    case None
    then have x: "n < length ms" "x = (int n, Name (ms ! n))"
      by (simp_all add: row_verdict_None_iff)
    have "?L n (x # rows) \<longleftrightarrow> ?L (n + 1) rows"
      by (simp add: verifyLoop_step None del: verifyLoop.simps)
    also have "\<dots> \<longleftrightarrow> ?R (n + 1) rows" using x(1) by (intro Cons.IH) simp
    also have "\<dots> \<longleftrightarrow> ?R n (x # rows)"
    proof
      assume "?R (n + 1) rows"
      then obtain p r rest where h: "rows = rows_from ms (n + 1) p @ r # rest"
        "n + 1 + p \<le> length ms" "row_verdict ms (n + 1 + p) r = Some e" by blast
      have "x # rows = rows_from ms n (Suc p) @ r # rest"
        using h(1) x(2) by (simp add: rows_from_Suc)
      moreover have "n + Suc p \<le> length ms" using h(2) by simp
      moreover have "row_verdict ms (n + Suc p) r = Some e" using h(3) by simp
      ultimately show "?R n (x # rows)" by blast
    next
      assume "?R n (x # rows)"
      then obtain p r rest where h: "x # rows = rows_from ms n p @ r # rest"
        "n + p \<le> length ms" "row_verdict ms (n + p) r = Some e" by blast
      show "?R (n + 1) rows"
      proof (cases p)
        case 0
        then show ?thesis using h None by simp
      next
        case (Suc q)
        have "rows = rows_from ms (n + 1) q @ r # rest"
          using h(1) Suc by (simp add: rows_from_Suc)
        moreover have "n + 1 + q \<le> length ms" using h(2) Suc by simp
        moreover have "row_verdict ms (n + 1 + q) r = Some e" using h(3) Suc by simp
        ultimately show ?thesis by blast
      qed
    qed
    finally show ?thesis .
  next
    case (Some e')
    have L: "?L n (x # rows) \<longleftrightarrow> e = e'"
      by (auto simp add: verifyLoop_step Some simp del: verifyLoop.simps)
    have "?R n (x # rows) \<longleftrightarrow> e = e'"
    proof
      assume "?R n (x # rows)"
      then obtain p r rest where h: "x # rows = rows_from ms n p @ r # rest"
        "n + p \<le> length ms" "row_verdict ms (n + p) r = Some e" by blast
      show "e = e'"
      proof (cases p)
        case 0
        then show ?thesis using h Some by simp
      next
        case (Suc q)
        then have "x = (int n, Name (ms ! n))" "n < length ms"
          using h(1,2) by (simp_all add: rows_from_Suc)
        then have "row_verdict ms n x = None" by (simp add: row_verdict_None_iff)
        then show ?thesis using Some by simp
      qed
    next
      assume "e = e'"
      then have "x # rows = rows_from ms n 0 @ x # rows \<and> n + 0 \<le> length ms
         \<and> row_verdict ms (n + 0) x = Some e"
        using Some Cons.prems by simp
      then show "?R n (x # rows)" by blast
    qed
    with L show ?thesis by simp
  qed
qed

text \<open>
  Claim C1. Whenever the ledger query delivers its rows, the verifier either returns
  \<open>k\<close>, and it does so exactly when \<open>k \<le> len(list)\<close> and the rows are the first \<open>k\<close>
  declared migrations (so \<open>k\<close> is the length of the matched prefix, and the ledger is
  that prefix and nothing more); or it fails with the error that the specification's
  case order (duplicate or negative index, unknown migration, skipped migration, name
  mismatch) gives for the first row that leaves the prefix, which is one of the four
  disagreement errors.
\<close>

theorem verifyMigrations_prefix_or_disagreement:
  assumes "query_ledger env tr tx = Inr (rows, None)"
  shows "(verifyMigrations env ms tr tx = Inr k
            \<longleftrightarrow> k \<le> length ms \<and> rows = ledger_prefix ms k)
       \<and> (verifyMigrations env ms tr tx = Inl e
            \<longleftrightarrow> (\<exists>p r rest. rows = ledger_prefix ms p @ r # rest \<and> p \<le> length ms
                   \<and> row_verdict ms p r = Some e))
       \<and> (verifyMigrations env ms tr tx = Inl e \<longrightarrow> is_disagreement e)
       \<and> ((\<exists>k'. verifyMigrations env ms tr tx = Inr k') \<or>
          (\<exists>e'. verifyMigrations env ms tr tx = Inl e'))"
proof -
  have v: "verifyMigrations env ms tr tx = verifyLoop ms 0 rows None"
    using assms by (simp add: verifyMigrations_def)
  have a: "verifyLoop ms 0 rows None = Inr k \<longleftrightarrow> k \<le> length ms \<and> rows = ledger_prefix ms k"
    using verifyLoop_Inr_iff [of 0 ms rows k] by (simp add: ledger_prefix_rows_from)
  have b: "verifyLoop ms 0 rows None = Inl e
      \<longleftrightarrow> (\<exists>p r rest. rows = ledger_prefix ms p @ r # rest \<and> p \<le> length ms
             \<and> row_verdict ms p r = Some e)"
    using verifyLoop_Inl_iff [of 0 ms rows e] by (simp add: ledger_prefix_rows_from)
  have c: "verifyLoop ms 0 rows None = Inl e \<longrightarrow> is_disagreement e"
    using b row_verdict_disagreement by blast
  have d: "(\<exists>k'. verifyLoop ms 0 rows None = Inr k') \<or> (\<exists>e'. verifyLoop ms 0 rows None = Inl e')"
    by (cases "verifyLoop ms 0 rows None") auto
  show ?thesis unfolding v using a b c d by blast
qed

theorem verifyMigrations_prefix_or_disagreement_witness:
  "query_ledger sql_log_env [] test_database
      = Inr ([(0, ''a migration''), (1, ''another migration'')], None)
   \<and> verifyMigrations sql_log_env test_migrations [] test_database = Inr 2"
proof -
  have q: "query_ledger sql_log_env [] test_database
      = Inr ([(0, ''a migration''), (1, ''another migration'')], None)"
    by (simp add: query_ledger_def sql_log_env_def test_database_def)
  have p: "[(0, ''a migration''), (1, ''another migration'')] = ledger_prefix test_migrations 2"
    by (simp add: ledger_prefix_def test_migrations_def upt_rec)
  have "verifyMigrations sql_log_env test_migrations [] test_database = Inr 2"
    using verifyMigrations_prefix_or_disagreement [OF q, of test_migrations 2] p
    by (simp add: test_migrations_def)
  with q show ?thesis by simp
qed

section \<open>The two transactions\<close>


lemma verifyLoop_broken: "verifyLoop ms n rows (Some c) \<noteq> Inr k"
proof (induction rows arbitrary: n)
  case Nil
  show ?case by simp
next
  case (Cons r rows)
  show ?case using Cons.IH [of "n + 1"]
    by (simp add: verifyLoop_step del: verifyLoop.simps split: option.splits)
qed

lemma verifyMigrations_Inr:
  assumes "verifyMigrations env ms tr tx = Inr k"
  shows "applied ms tx = Some k"
proof -
  from assms obtain rows fin where q: "query_ledger env tr tx = Inr (rows, fin)"
    and v: "verifyLoop ms 0 rows fin = Inr k"
    by (auto simp: verifyMigrations_def split: sum.splits)
  from v have fin: "fin = None" by (cases fin) (simp_all add: verifyLoop_broken)
  from q fin obtain tab where "migration_table tx = Some tab" "rows = sort_key fst tab"
    by (auto simp: query_ledger_def split: option.splits)
  with v fin show ?thesis by (simp add: applied_def)
qed

lemma applied_Some:
  assumes "applied ms db = Some k"
  shows "k \<le> length ms \<and> (\<exists>rows. migration_table db = Some rows \<and> sort_key fst rows = ledger_prefix ms k)"
proof -
  from assms obtain rows where t: "migration_table db = Some rows"
    and v: "verifyLoop ms 0 (sort_key fst rows) None = Inr k"
    by (auto simp: applied_def split: option.splits sum.splits)
  from v have "k \<le> length ms \<and> sort_key fst rows = ledger_prefix ms k"
    using verifyLoop_Inr_iff [of 0 ms "sort_key fst rows" k] by (simp add: ledger_prefix_rows_from)
  with t show ?thesis by simp
qed

lemma applied_indices:
  assumes "applied ms db = Some k" "migration_table db = Some rows"
  shows "fst ` set rows = int ` {0..<k}"
proof -
  from applied_Some [OF assms(1)] assms(2) have "sort_key fst rows = ledger_prefix ms k" by simp
  then have "set (sort_key fst rows) = set (ledger_prefix ms k)" by simp
  then have "set rows = set (ledger_prefix ms k)" by simp
  then show ?thesis by (force simp: ledger_prefix_def)
qed

lemma begin_lock_verify_InrD:
  assumes "begin_lock_verify env ms w = Inr first"
  shows "fault env (trace w @ [EvBegin]) = None"
    and "lock_table env (trace w @ [EvBegin, EvLock]) (store w) = None"
    and "verifyMigrations env ms (trace w @ [EvBegin, EvLock, EvSelect]) (store w) = Inr first"
  using assms by (auto simp: begin_lock_verify_def split: option.splits)

lemma migrateOne_refused:
  assumes "begin_lock_verify env ms w = Inl e"
  shows "snd (migrateOne env ms w) = Inl e \<and> store (fst (migrateOne env ms w)) = store w"
  using assms
  by (auto simp: migrateOne_def begin_lock_verify_def emit_def Let_def split: option.splits)

lemma rollbackOne_refused:
  assumes "begin_lock_verify env ms w = Inl e"
  shows "snd (rollbackOne env ms through w) = Inl e
       \<and> store (fst (rollbackOne env ms through w)) = store w"
  using assms
  by (auto simp: rollbackOne_def begin_lock_verify_def emit_def Let_def split: option.splits)

lemma migrateOne_verified:
  assumes "begin_lock_verify env ms w = Inr first"
  shows "migrateOne env ms w =
     (let tr = trace w @ [EvBegin, EvLock, EvSelect]; migration = ms ! first in
      if first \<ge> length ms then (w\<lparr>trace := tr @ [EvRollback]\<rparr>, Inr False)
      else
        (case DoMigration (exec env) (Migration migration) (store w) of
           Inl c \<Rightarrow>
             (w\<lparr>trace := tr @ [EvForward first, EvRollback]\<rparr>,
              Inl (MigrationFailed (int first) (Name migration) c))
         | Inr tx1 \<Rightarrow>
             (case insert_row env (tr @ [EvForward first, EvInsert (int first) (Name migration)])
                     tx1 (int first, Name migration) of
                Inl c \<Rightarrow>
                  (w\<lparr>trace := tr @ [EvForward first, EvInsert (int first) (Name migration),
                       EvRollback]\<rparr>,
                   Inl (ErrRecording (int first) (Name migration) c))
              | Inr tx2 \<Rightarrow>
                  (case fault env (tr @ [EvForward first, EvInsert (int first) (Name migration),
                          EvCommit]) of
                     Some c \<Rightarrow>
                       (w\<lparr>trace := tr @ [EvForward first,
                            EvInsert (int first) (Name migration), EvCommit]\<rparr>,
                        Inl (ErrCommitting c))
                   | None \<Rightarrow>
                       (\<lparr>store = tx2, trace = tr @ [EvForward first,
                            EvInsert (int first) (Name migration), EvCommit]\<rparr>,
                        Inr True)))))"
  using begin_lock_verify_InrD [OF assms]
  by (simp add: migrateOne_def emit_def Let_def split: option.splits sum.splits)

lemma rollbackOne_verified:
  assumes "begin_lock_verify env ms w = Inr first"
  shows "rollbackOne env ms through w =
     (let tr = trace w @ [EvBegin, EvLock, EvSelect]; index = first - 1;
          migration = ms ! index in
      if through < 0 then (w\<lparr>trace := tr @ [EvRollback]\<rparr>, Inl (InvalidTarget through))
      else if through \<ge> int first
        then (w\<lparr>trace := tr @ [EvRollback]\<rparr>, Inl (NotYetApplied through))
      else
        (case Reverse migration of
           None \<Rightarrow> (w\<lparr>trace := tr @ [EvRollback]\<rparr>, Inl (NoReverse (int index) (Name migration)))
         | Some reverse \<Rightarrow>
        (case DoMigration (exec env) reverse (store w) of
           Inl c \<Rightarrow>
             (w\<lparr>trace := tr @ [EvReverse index, EvRollback]\<rparr>,
              Inl (RollbackFailed (int index) (Name migration) c))
         | Inr tx1 \<Rightarrow>
             (case delete_row env (tr @ [EvReverse index, EvDelete (int index)])
                     tx1 (int index) of
                Inl c \<Rightarrow>
                  (w\<lparr>trace := tr @ [EvReverse index, EvDelete (int index), EvRollback]\<rparr>,
                   Inl (ErrDeleting (int index) (Name migration) c))
              | Inr tx2 \<Rightarrow>
                  (case fault env (tr @ [EvReverse index, EvDelete (int index), EvCommit]) of
                     Some c \<Rightarrow>
                       (w\<lparr>trace := tr @ [EvReverse index, EvDelete (int index), EvCommit]\<rparr>,
                        Inl (ErrCommitting c))
                   | None \<Rightarrow>
                       (\<lparr>store = tx2,
                         trace = tr @ [EvReverse index, EvDelete (int index), EvCommit]\<rparr>,
                        Inr index))))))"
  using begin_lock_verify_InrD [OF assms]
  by (simp add: rollbackOne_def emit_def Let_def split: option.splits sum.splits)

lemma rollbackOne_store:
  assumes "rollbackOne env ms through w = (w', r)"
  shows "(store w' = store w \<and> isl r) \<or>
         (\<exists>first rv tx1.
            r = Inr (first - 1) \<and>
            begin_lock_verify env ms w = Inr first \<and> 0 \<le> through \<and> through < int first \<and>
            Reverse (ms ! (first - 1)) = Some rv \<and>
            DoMigration (exec env) rv (store w) = Inr tx1 \<and>
            delete_row env (trace w @ [EvBegin, EvLock, EvSelect, EvReverse (first - 1),
               EvDelete (int (first - 1))]) tx1 (int (first - 1)) = Inr (store w'))"
proof (cases "begin_lock_verify env ms w")
  case (Inl e)
  from rollbackOne_refused [OF Inl, of through] assms show ?thesis by simp
next
  case (Inr first)
  show ?thesis
    using assms unfolding rollbackOne_verified [OF Inr]
    by (auto simp: Let_def Inr split: option.splits sum.splits if_splits)
qed

lemma migrateOne_store:
  assumes "migrateOne env ms w = (w', r)"
  shows "(store w' = store w \<and> r \<noteq> Inr True) \<or>
         (r = Inr True \<and> (\<exists>first tx1.
            begin_lock_verify env ms w = Inr first \<and> first < length ms \<and>
            DoMigration (exec env) (Migration (ms ! first)) (store w) = Inr tx1 \<and>
            insert_row env (trace w @ [EvBegin, EvLock, EvSelect, EvForward first,
               EvInsert (int first) (Name (ms ! first))]) tx1 (int first, Name (ms ! first))
              = Inr (store w')))"
proof (cases "begin_lock_verify env ms w")
  case (Inl e)
  from migrateOne_refused [OF Inl] assms show ?thesis by simp
next
  case (Inr first)
  show ?thesis
    using assms unfolding migrateOne_verified [OF Inr]
    by (auto simp: Let_def Inr split: option.splits sum.splits if_splits)
qed

lemma begin_lock_verify_Inr:
  "begin_lock_verify env ms w = Inr k \<Longrightarrow> applied ms (store w) = Some k"
  by (auto simp: begin_lock_verify_def split: option.splits dest: verifyMigrations_Inr)

lemma insert_row_Inr:
  "insert_row env tr tx r = Inr tx' \<Longrightarrow>
     \<exists>rows. migration_table tx = Some rows \<and> fst r \<notin> fst ` set rows \<and>
       tx' = tx\<lparr>migration_table := Some (rows @ [r])\<rparr>"
  by (auto simp: insert_row_def split: option.splits if_splits)

lemma delete_row_Inr:
  "delete_row env tr tx i = Inr tx' \<Longrightarrow>
     \<exists>rows. migration_table tx = Some rows \<and>
       tx' = tx\<lparr>migration_table := Some (filter (\<lambda>r. fst r \<noteq> i) rows)\<rparr>"
  by (auto simp: delete_row_def split: option.splits)

text \<open>The measures of the two loops: how many steps a fault-free run has left.\<close>

definition to_apply :: "'s NamedMigration list \<Rightarrow> 's database \<Rightarrow> nat" where
  "to_apply ms db = (case applied ms db of None \<Rightarrow> 0 | Some k \<Rightarrow> length ms - k)"

definition to_reverse :: "'s NamedMigration list \<Rightarrow> 's database \<Rightarrow> nat" where
  "to_reverse ms db = (case applied ms db of None \<Rightarrow> 0 | Some k \<Rightarrow> k)"

lemma migrateOne_decreases:
  assumes "migrateOne env ms w = (w', Inr True)"
  shows "to_apply ms (store w') < to_apply ms (store w)"
proof -
  from migrateOne_store [OF assms] obtain first tx1 where
    b: "begin_lock_verify env ms w = Inr first" and lt: "first < length ms" and
    ins: "insert_row env (trace w @ [EvBegin, EvLock, EvSelect, EvForward first,
               EvInsert (int first) (Name (ms ! first))]) tx1 (int first, Name (ms ! first))
              = Inr (store w')"
    by auto
  from begin_lock_verify_Inr [OF b] have a: "applied ms (store w) = Some first" .
  from insert_row_Inr [OF ins] obtain rows where
    t: "migration_table (store w') = Some (rows @ [(int first, Name (ms ! first))])"
    by auto
  show ?thesis
  proof (cases "applied ms (store w')")
    case None
    then show ?thesis using a lt by (simp add: to_apply_def)
  next
    case (Some k')
    from applied_indices [OF Some t] have "int first \<in> int ` {0..<k'}" by auto
    then have "first < k'" by auto
    moreover have "k' \<le> length ms" using applied_Some [OF Some] by simp
    ultimately show ?thesis using a Some lt by (simp add: to_apply_def)
  qed
qed

lemma rollbackOne_decreases:
  assumes "rollbackOne env ms through w = (w', Inr i)"
  shows "to_reverse ms (store w') < to_reverse ms (store w)"
proof -
  from rollbackOne_store [OF assms] obtain first tx1 where
    b: "begin_lock_verify env ms w = Inr first" and lt: "0 \<le> through" "through < int first" and
    del: "delete_row env (trace w @ [EvBegin, EvLock, EvSelect, EvReverse (first - 1),
               EvDelete (int (first - 1))]) tx1 (int (first - 1)) = Inr (store w')"
    by auto
  from begin_lock_verify_Inr [OF b] have a: "applied ms (store w) = Some first" .
  from delete_row_Inr [OF del] obtain rows where
    t: "migration_table (store w') = Some (filter (\<lambda>r. fst r \<noteq> int (first - 1)) rows)"
    by auto
  have pos: "0 < first" using lt by simp
  show ?thesis
  proof (cases "applied ms (store w')")
    case None
    then show ?thesis using a pos by (simp add: to_reverse_def)
  next
    case (Some k')
    from applied_indices [OF Some t] have "int (first - 1) \<notin> int ` {0..<k'}" by auto
    then have "\<not> first - 1 < k'" by auto
    then show ?thesis using a Some pos by (simp add: to_reverse_def)
  qed
qed

subsection \<open>The loops\<close>

text \<open>
  The \<open>for\<close> loop of \<open>func Migrate\<close>. It ends for every environment and every list of
  migrations: a committed step has inserted the row of the index it verified, so the
  next verification fails or finds a larger index.
\<close>

function Migrate_loop ::
  "'s env \<Rightarrow> 's NamedMigration list \<Rightarrow> 's world \<Rightarrow> 's world \<times> error option" where
  "Migrate_loop env ms w =
     (case migrateOne env ms w of
        (w', Inl err) \<Rightarrow> (w', Some err)
      | (w', Inr migrated) \<Rightarrow>
          if \<not> migrated then (w', None) else Migrate_loop env ms w')"
  by pat_completeness auto
termination
proof (relation "measure (\<lambda>(env, ms, w). to_apply ms (store w))")
  show "wf (measure (\<lambda>(env, ms, w). to_apply ms (store w)))" by simp
next
  fix env :: "'s env" and ms :: "'s NamedMigration list" and w x1 x2 and migrated
  assume "(x1, x2) = migrateOne env ms w" "x2 = Inr migrated" "\<not> \<not> migrated"
  then have "migrateOne env ms w = (x1, Inr True)" by simp
  from migrateOne_decreases [OF this]
  show "((env, ms, x1), (env, ms, w)) \<in> measure (\<lambda>(env, ms, w). to_apply ms (store w))"
    by simp
qed

text \<open>\<open>func Migrate\<close>.\<close>

declare Migrate_loop.simps [simp del]

definition Migrate :: "'s env \<Rightarrow> 's NamedMigration list \<Rightarrow> 's world \<Rightarrow> 's world \<times> error option" where
  "Migrate env ms w =
     (case ensureMigrationsTableExists env w of
        (w1, Some err) \<Rightarrow> (w1, Some err)
      | (w1, None) \<Rightarrow> Migrate_loop env ms w1)"

text \<open>
  The \<open>for\<close> loop of \<open>func Rollback\<close>. It ends as well: a committed step has deleted the
  row of the index below the one it verified.
\<close>

function Rollback_loop ::
  "'s env \<Rightarrow> 's NamedMigration list \<Rightarrow> int \<Rightarrow> 's world \<Rightarrow> 's world \<times> error option" where
  "Rollback_loop env ms rollBackThroughIndex w =
     (case rollbackOne env ms rollBackThroughIndex w of
        (w', Inl err) \<Rightarrow> (w', Some err)
      | (w', Inr rolledBackIndex) \<Rightarrow>
          if int rolledBackIndex = rollBackThroughIndex then (w', None)
          else Rollback_loop env ms rollBackThroughIndex w')"
  by pat_completeness auto
termination
proof (relation "measure (\<lambda>(env, ms, through, w). to_reverse ms (store w))")
  show "wf (measure (\<lambda>(env, ms, through, w). to_reverse ms (store w)))" by simp
next
  fix env :: "'s env" and ms :: "'s NamedMigration list" and through w x1 x2 and i
  assume "(x1, x2) = rollbackOne env ms through w" "x2 = Inr i"
  then have "rollbackOne env ms through w = (x1, Inr i)" by simp
  from rollbackOne_decreases [OF this]
  show "((env, ms, through, x1), (env, ms, through, w))
      \<in> measure (\<lambda>(env, ms, through, w). to_reverse ms (store w))"
    by simp
qed

text \<open>\<open>func Rollback\<close>.\<close>

declare Rollback_loop.simps [simp del]

definition Rollback ::
  "'s env \<Rightarrow> 's NamedMigration list \<Rightarrow> int \<Rightarrow> 's world \<Rightarrow> 's world \<times> error option" where
  "Rollback env ms rollBackThroughIndex w =
     (case ensureMigrationsTableExists env w of
        (w1, Some err) \<Rightarrow> (w1, Some err)
      | (w1, None) \<Rightarrow> Rollback_loop env ms rollBackThroughIndex w1)"

subsection \<open>The schema dumper\<close>

record PostgresConfig =
  Host :: string
  Port :: string
  Database :: string
  User :: string
  Password :: string

text \<open>The line written to the password file: \<open>fmt.Sprintf("%s:%s:%s:%s:%s", ...)\<close>.\<close>

definition pgpass :: "PostgresConfig \<Rightarrow> string" where
  "pgpass c = Host c @ '':'' @ Port c @ '':'' @ Database c @ '':'' @ User c @ '':'' @ Password c"

text \<open>
  The argument vector of \<open>exec.Command("pg_dump", ...)\<close>, in the two copies of
  \<open>verify.go\<close>: the one at \<open>src/migrations/verify.go\<close>, and the one in
  \<open>src/unnamed/part_003\<close>, which adds \<open>--restrict-key=key\<close> under the comment
  "if not specified, will be random, so not repeatable".
\<close>

definition pg_dump_args :: "PostgresConfig \<Rightarrow> string list" where
  "pg_dump_args c = [''-s'', ''-h'', Host c, ''-p'', Port c, ''-U'', User c, Database c]"

definition pg_dump_args_part_003 :: "PostgresConfig \<Rightarrow> string list" where
  "pg_dump_args_part_003 c =
     [''-s'', ''-h'', Host c, ''-p'', Port c, ''-U'', User c, ''--restrict-key=key'', Database c]"

text \<open>
  \<open>func dump\<close>, for either argument vector: the temporary directory, the password file,
  the \<open>pg_dump\<close> process; the deferred \<open>os.RemoveAll\<close> runs on every return after the
  directory was made.
\<close>

definition dump_with ::
  "(PostgresConfig \<Rightarrow> string list) \<Rightarrow> 's env \<Rightarrow> PostgresConfig \<Rightarrow> 's world
    \<Rightarrow> 's world \<times> (error + string)" where
  "dump_with args env c w =
     (let w1 = emit EvMkdirTemp w in
      case fault env (trace w1) of
        Some e \<Rightarrow> (w1, Inl (ErrTempDir e))
      | None \<Rightarrow>
     (let w2 = emit (EvWritePgpass (pgpass c)) w1 in
      case fault env (trace w2) of
        Some e \<Rightarrow> (emit EvRemoveAll w2, Inl (ErrWritingPgpass e))
      | None \<Rightarrow>
     (let w3 = emit (EvPgDump (args c)) w2;
          out = pg_dump env (args c) (store w3) (trace w3) in
      case fault env (trace w3) of
        Some e \<Rightarrow> (emit EvRemoveAll w3, Inl (ErrPgDump e out))
      | None \<Rightarrow> (emit EvRemoveAll w3, Inr out))))"

definition dump :: "'s env \<Rightarrow> PostgresConfig \<Rightarrow> 's world \<Rightarrow> 's world \<times> (error + string)" where
  "dump = dump_with pg_dump_args"

definition dump_part_003 ::
  "'s env \<Rightarrow> PostgresConfig \<Rightarrow> 's world \<Rightarrow> 's world \<times> (error + string)" where
  "dump_part_003 = dump_with pg_dump_args_part_003"

subsection \<open>The round-trip tester\<close>

text \<open>
  The catalog query of \<open>verifyNoTables\<close> selects the relations outside the system
  schemas; the ledger table, when it exists, is one of them.
\<close>

definition user_relations :: "'s env \<Rightarrow> 's database \<Rightarrow> bool" where
  "user_relations env db \<longleftrightarrow> migration_table db \<noteq> None \<or> relations env (schema db)"

definition verifyNoTables :: "'s env \<Rightarrow> 's world \<Rightarrow> 's world \<times> error option" where
  "verifyNoTables env w =
     (let w1 = emit EvCatalogQuery w in
      case fault env (trace w1) of
        Some c \<Rightarrow> (w1, Some (ErrCheckingTables c))
      | None \<Rightarrow>
          if user_relations env (store w1)
          then (w1, Some (errors_New
                  ''Existing tables found. You must run SchemaTest on an empty database.''))
          else (w1, None))"

text \<open>
  \<open>fmt.Sprintf("host=%s port=%s password=%s sslmode=disable user=%s dbname=%s", ...)\<close>.
\<close>

definition postgresConnectionString :: "PostgresConfig \<Rightarrow> string" where
  "postgresConnectionString c =
     ''host='' @ Host c @ '' port='' @ Port c @ '' password='' @ Password c
       @ '' sslmode=disable user='' @ User c @ '' dbname='' @ Database c"

text \<open>
  The body of the \<open>for idx, migration := range allMigrations\<close> loop of \<open>SchemaTest\<close> in
  \<open>src/migrations/verify.go\<close>. \<open>idx\<close> is in range there.
\<close>

definition SchemaTest_step ::
  "'s env \<Rightarrow> PostgresConfig \<Rightarrow> 's NamedMigration list \<Rightarrow> nat \<Rightarrow> 's world
    \<Rightarrow> 's world \<times> error option" where
  "SchemaTest_step env c allMigrations idx w =
     (let migration = allMigrations ! idx in
      case dump env c w of
        (w1, Inl e) \<Rightarrow> (w1, Some (DumpFailed e))
      | (w1, Inr beforeMigrate) \<Rightarrow>
     (case Migrate env (take (idx + 1) allMigrations) w1 of
        (w2, Some e) \<Rightarrow> (w2, Some (MigrateFailed (Name migration) e))
      | (w2, None) \<Rightarrow>
     (case dump env c w2 of
        (w3, Inl e) \<Rightarrow> (w3, Some (DumpFailed e))
      | (w3, Inr afterMigrate) \<Rightarrow>
     (case Rollback env allMigrations (int idx) w3 of
        (w4, Some e) \<Rightarrow> (w4, Some (RollbackToFailed (Name migration) e))
      | (w4, None) \<Rightarrow>
     (case dump env c w4 of
        (w5, Inl e) \<Rightarrow> (w5, Some (DumpFailed e))
      | (w5, Inr afterRollback) \<Rightarrow>
          if beforeMigrate \<noteq> afterRollback
          then (w5, Some (RollbackMismatch (Name migration)))
          else
     (case Migrate env (take (idx + 1) allMigrations) w5 of
        (w6, Some e) \<Rightarrow> (w6, Some (MigrateFailed (Name migration) e))
      | (w6, None) \<Rightarrow>
     (case dump env c w6 of
        (w7, Inl e) \<Rightarrow> (w7, Some (DumpFailed e))
      | (w7, Inr afterMigrateAgain) \<Rightarrow>
          if afterMigrate \<noteq> afterMigrateAgain
          then (w7, Some (RemigrateMismatch (Name migration)))
          else (w7, None))))))))"

fun SchemaTest_loop ::
  "('s world \<Rightarrow> nat \<Rightarrow> 's world \<times> error option) \<Rightarrow> nat list \<Rightarrow> 's world
    \<Rightarrow> 's world \<times> error option" where
  "SchemaTest_loop body [] w = (w, None)"
| "SchemaTest_loop body (idx # rest) w =
     (case body w idx of
        (w', Some e) \<Rightarrow> (w', Some e)
      | (w', None) \<Rightarrow> SchemaTest_loop body rest w')"

text \<open>\<open>func SchemaTest\<close> of \<open>src/migrations/verify.go\<close>.\<close>

definition SchemaTest ::
  "'s env \<Rightarrow> PostgresConfig \<Rightarrow> 's NamedMigration list \<Rightarrow> 's world \<Rightarrow> 's world \<times> error option"
  where
  "SchemaTest env emptyDBConfig allMigrations w =
     (if '''' \<in> set [Host emptyDBConfig, Port emptyDBConfig, Database emptyDBConfig,
                     User emptyDBConfig, Password emptyDBConfig]
      then (w, Some (errors_New ''All PostgresConfig fields must be specified''))
      else
     (let w1 = emit (EvConnect (postgresConnectionString emptyDBConfig)) w in
      case fault env (trace w1) of
        Some c \<Rightarrow> (w1, Some (ErrConnecting c))
      | None \<Rightarrow>
     (case verifyNoTables env w1 of
        (w2, Some e) \<Rightarrow> (w2, Some e)
      | (w2, None) \<Rightarrow>
     (case Migrate env [] w2 of
        (w3, Some e) \<Rightarrow> (w3, Some (SetupFailed e))
      | (w3, None) \<Rightarrow>
          SchemaTest_loop (\<lambda>w idx. SchemaTest_step env emptyDBConfig allMigrations idx w)
            [0..<length allMigrations] w3))))"

text \<open>
  \<open>func migrateAndRollback\<close> of the copy in \<open>src/unnamed/part_003\<close>. The two indices are
  Go ints: \<open>SchemaTest\<close> passes \<open>len(allMigrations) - 1\<close>, which is \<open>-1\<close> for an empty
  list. Slicing and indexing out of range panic.
\<close>

definition name_at :: "'s NamedMigration list \<Rightarrow> int \<Rightarrow> error + string" where
  "name_at allMigrations i =
     (if 0 \<le> i \<and> i < int (length allMigrations) then Inr (Name (allMigrations ! nat i))
      else Inl (Panic ''index out of range''))"

definition migrateAndRollback ::
  "'s env \<Rightarrow> PostgresConfig \<Rightarrow> 's NamedMigration list \<Rightarrow> int \<Rightarrow> int \<Rightarrow> bool \<Rightarrow> 's world
    \<Rightarrow> 's world \<times> error option" where
  "migrateAndRollback env c allMigrations migrateToIndex rollbackThroughIndex repeatForward w =
     (case dump_part_003 env c w of
        (w1, Inl e) \<Rightarrow> (w1, Some (DumpFailed e))
      | (w1, Inr beforeMigrate) \<Rightarrow>
          if migrateToIndex + 1 < 0 \<or> int (length allMigrations) < migrateToIndex + 1
          then (w1, Some (Panic ''slice bounds out of range''))
          else
     (case Migrate env (take (nat (migrateToIndex + 1)) allMigrations) w1 of
        (w2, Some e) \<Rightarrow>
          (case name_at allMigrations migrateToIndex of
             Inl p \<Rightarrow> (w2, Some p)
           | Inr n \<Rightarrow> (w2, Some (MigrateFailed n e)))
      | (w2, None) \<Rightarrow>
     (case dump_part_003 env c w2 of
        (w3, Inl e) \<Rightarrow> (w3, Some (DumpFailed e))
      | (w3, Inr afterMigrate) \<Rightarrow>
     (case Rollback env allMigrations rollbackThroughIndex w3 of
        (w4, Some e) \<Rightarrow>
          (case name_at allMigrations rollbackThroughIndex of
             Inl p \<Rightarrow> (w4, Some p)
           | Inr n \<Rightarrow> (w4, Some (RollbackToFailed n e)))
      | (w4, None) \<Rightarrow>
     (case dump_part_003 env c w4 of
        (w5, Inl e) \<Rightarrow> (w5, Some (DumpFailed e))
      | (w5, Inr afterRollback) \<Rightarrow>
          if beforeMigrate \<noteq> afterRollback
          then (case name_at allMigrations rollbackThroughIndex of
                  Inl p \<Rightarrow> (w5, Some p)
                | Inr n \<Rightarrow> (w5, Some (RollbackMismatch n)))
          else if \<not> repeatForward then (w5, None)
          else
     (case Migrate env (take (nat (migrateToIndex + 1)) allMigrations) w5 of
        (w6, Some e) \<Rightarrow>
          (case name_at allMigrations migrateToIndex of
             Inl p \<Rightarrow> (w6, Some p)
           | Inr n \<Rightarrow> (w6, Some (MigrateFailed n e)))
      | (w6, None) \<Rightarrow>
     (case dump_part_003 env c w6 of
        (w7, Inl e) \<Rightarrow> (w7, Some (DumpFailed e))
      | (w7, Inr afterMigrateAgain) \<Rightarrow>
          if afterMigrate \<noteq> afterMigrateAgain
          then (case name_at allMigrations migrateToIndex of
                  Inl p \<Rightarrow> (w7, Some p)
                | Inr n \<Rightarrow> (w7, Some (RemigrateMismatch n)))
          else (w7, None))))))))"

text \<open>\<open>func SchemaTest\<close> of the copy in \<open>src/unnamed/part_003\<close>.\<close>

definition SchemaTest_part_003 ::
  "'s env \<Rightarrow> PostgresConfig \<Rightarrow> 's NamedMigration list \<Rightarrow> 's world \<Rightarrow> 's world \<times> error option"
  where
  "SchemaTest_part_003 env emptyDBConfig allMigrations w =
     (if '''' \<in> set [Host emptyDBConfig, Port emptyDBConfig, Database emptyDBConfig,
                     User emptyDBConfig, Password emptyDBConfig]
      then (w, Some (errors_New ''All PostgresConfig fields must be specified''))
      else
     (let w1 = emit (EvConnect (postgresConnectionString emptyDBConfig)) w in
      case fault env (trace w1) of
        Some c \<Rightarrow> (w1, Some (ErrConnecting c))
      | None \<Rightarrow>
     (case verifyNoTables env w1 of
        (w2, Some e) \<Rightarrow> (w2, Some e)
      | (w2, None) \<Rightarrow>
     (case Migrate env [] w2 of
        (w3, Some e) \<Rightarrow> (w3, Some (SetupFailed e))
      | (w3, None) \<Rightarrow>
     (case migrateAndRollback env emptyDBConfig allMigrations
             (int (length allMigrations) - 1) 0 False w3 of
        (w4, Some e) \<Rightarrow> (w4, Some e)
      | (w4, None) \<Rightarrow>
          SchemaTest_loop
            (\<lambda>w idx. migrateAndRollback env emptyDBConfig allMigrations (int idx) (int idx) True w)
            [0..<length allMigrations] w4)))))"

section \<open>Failures inside one transaction\<close>

lemma test_world_verified:
  "begin_lock_verify sql_log_env test_migrations test_world = Inr 2"
  by (simp add: begin_lock_verify_def sql_log_env_def test_world_def test_database_def
      lock_table_def verifyMigrations_def query_ledger_def test_migrations_def)

lemma empty_world_verified:
  "begin_lock_verify sql_log_env ms empty_world = Inr 0"
  by (simp add: begin_lock_verify_def sql_log_env_def empty_world_def
      lock_table_def verifyMigrations_def query_ledger_def)

lemma verifyLoop_Inl_kind:
  "verifyLoop ms n rows fin = Inl e \<Longrightarrow> (\<exists>c. e = ErrFetching c) \<or> is_disagreement e"
proof (induction rows arbitrary: n)
  case Nil
  then show ?case by (cases fin) auto
next
  case (Cons r rows)
  show ?case
  proof (cases "row_verdict ms n r")
    case None
    with Cons.prems have "verifyLoop ms (n + 1) rows fin = Inl e"
      by (simp add: verifyLoop_step del: verifyLoop.simps)
    then show ?thesis by (rule Cons.IH)
  next
    case (Some e')
    with Cons.prems have "e = e'" by (simp add: verifyLoop_step del: verifyLoop.simps)
    with Some show ?thesis by (simp add: row_verdict_disagreement)
  qed
qed

lemma begin_lock_verify_Inl_kind:
  assumes "begin_lock_verify env ms w = Inl e"
  shows "(\<exists>c. e = ErrStartingTransaction c) \<or> (\<exists>c. e = ErrLockingTable c)
       \<or> (\<exists>c. e = ErrFetching c) \<or> is_disagreement e"
  using assms
  by (auto simp: begin_lock_verify_def verifyMigrations_def
      split: option.splits sum.splits dest: verifyLoop_Inl_kind)

lemma migrateOne_failed:
  assumes "migrateOne env ms w = (w1, Inl (MigrationFailed j n c))"
  shows "\<exists>k. begin_lock_verify env ms w = Inr k \<and> k < length ms \<and> j = int k \<and> n = Name (ms ! k)
          \<and> DoMigration (exec env) (Migration (ms ! k)) (store w) = Inl c \<and> store w1 = store w"
proof (cases "begin_lock_verify env ms w")
  case (Inl e)
  from migrateOne_refused [OF Inl] assms have "e = MigrationFailed j n c" by simp
  with begin_lock_verify_Inl_kind [OF Inl] show ?thesis by auto
next
  case (Inr k)
  show ?thesis
    using assms unfolding migrateOne_verified [OF Inr]
    by (auto simp: Let_def Inr split: option.splits sum.splits if_splits)
qed

lemma Migrate_loop_failed:
  assumes "Migrate_loop env ms w = (w', Some (MigrationFailed j n c))"
  shows "\<exists>k. j = int k \<and> k < length ms \<and> n = Name (ms ! k)
          \<and> DoMigration (exec env) (Migration (ms ! k)) (store w') = Inl c
          \<and> applied ms (store w') = Some k"
  using assms
proof (induction env ms w rule: Migrate_loop.induct)
  case (1 env ms w)
  obtain w1 r where m: "migrateOne env ms w = (w1, r)" by force
  show ?case
  proof (cases r)
    case (Inl e)
    with m "1.prems" have e: "w' = w1" "e = MigrationFailed j n c"
      by (simp_all add: Migrate_loop.simps [of env ms w])
    from migrateOne_failed [OF m [unfolded Inl e(2)]] obtain k where
      k: "begin_lock_verify env ms w = Inr k" "k < length ms" "j = int k" "n = Name (ms ! k)"
         "DoMigration (exec env) (Migration (ms ! k)) (store w) = Inl c" "store w1 = store w"
      by blast
    from begin_lock_verify_Inr [OF k(1)] k e(1) show ?thesis by auto
  next
    case (Inr b)
    show ?thesis
    proof (cases b)
      case True
      with m Inr "1.prems" have "Migrate_loop env ms w1 = (w', Some (MigrationFailed j n c))"
        by (simp add: Migrate_loop.simps [of env ms w])
      moreover have "(w1, r) = migrateOne env ms w" "r = Inr b" "\<not> \<not> b"
        using m Inr True by simp_all
      ultimately show ?thesis using "1.IH" by blast
    next
      case False
      with m Inr "1.prems" show ?thesis by (simp add: Migrate_loop.simps [of env ms w])
    qed
  qed
qed

lemma ensure_result:
  assumes "ensureMigrationsTableExists env w = (w1, r)"
  shows "(r = None \<or> (\<exists>c. r = Some (ErrCheckingTable c)) \<or> (\<exists>c. r = Some (ErrCreatingTable c)))"
  using assms
  by (auto simp: ensureMigrationsTableExists_def Let_def emit_def split: option.splits if_splits)

text \<open>
  The world of the sample list \<open>two_migrations\<close> after \<open>Migrate\<close> has committed its first
  step on an empty ledger.
\<close>

definition after_create_t1 :: "string list world" where
  "after_create_t1 =
     \<lparr>store = \<lparr>migration_table = Some [(0, ''Create T1'')], schema = [''CREATE TABLE t1'']\<rparr>,
      trace = [EvCheckTable, EvBegin, EvLock, EvSelect, EvForward 0, EvInsert 0 ''Create T1'',
               EvCommit]\<rparr>"

lemma two_migrations_step0:
  "migrateOne sql_log_env two_migrations (empty_world\<lparr>trace := [EvCheckTable]\<rparr>) =
     (after_create_t1, Inr True)"
proof -
  have v: "begin_lock_verify sql_log_env two_migrations (empty_world\<lparr>trace := [EvCheckTable]\<rparr>) = Inr 0"
    by (simp add: begin_lock_verify_def sql_log_env_def empty_world_def
      lock_table_def verifyMigrations_def query_ledger_def)
  show ?thesis
    unfolding migrateOne_verified [OF v]
    by (simp add: Let_def two_migrations_def sql_log_env_def empty_world_def insert_row_def
        after_create_t1_def)
qed

lemma after_create_t1_verified:
  "begin_lock_verify sql_log_env two_migrations after_create_t1 = Inr 1"
  by (simp add: begin_lock_verify_def sql_log_env_def after_create_t1_def
      lock_table_def verifyMigrations_def query_ledger_def two_migrations_def)

text \<open>
  Claim C3. If the verifier of an apply-one step finds \<open>i\<close> and the forward migration of
  \<open>list[i]\<close> fails with cause \<open>c\<close>, then \<open>migrateOne\<close> rolls its transaction back: the world
  it returns differs from the one it found only by the trace of the step, which has no
  insert and no commit, so schema and ledger are as before; the error names the index,
  the name and the cause, and the loop of \<open>Migrate\<close> returns it at once. The ledger then
  is exactly the rows of the migrations below \<open>i\<close>. And whenever a call of \<open>Migrate\<close>
  returns such an error for index \<open>j\<close>, whatever it committed before, the database it
  leaves is the one in which that forward migration was tried and failed, and its ledger
  records exactly the migrations below \<open>j\<close>.
\<close>

theorem forward_failure_rolls_back:
  "(begin_lock_verify env ms w = Inr i \<and> i < length ms \<and>
      DoMigration (exec env) (Migration (ms ! i)) (store w) = Inl c
    \<longrightarrow> migrateOne env ms w =
          (w\<lparr>trace := trace w @ [EvBegin, EvLock, EvSelect, EvForward i, EvRollback]\<rparr>,
           Inl (MigrationFailed (int i) (Name (ms ! i)) c))
      \<and> Migrate_loop env ms w =
          (w\<lparr>trace := trace w @ [EvBegin, EvLock, EvSelect, EvForward i, EvRollback]\<rparr>,
           Some (MigrationFailed (int i) (Name (ms ! i)) c))
      \<and> (\<exists>rows. migration_table (store w) = Some rows \<and> sort_key fst rows = ledger_prefix ms i))
   \<and> (Migrate env ms w = (w', Some (MigrationFailed j n c'))
    \<longrightarrow> (\<exists>k rows. j = int k \<and> k < length ms \<and> n = Name (ms ! k) \<and>
           DoMigration (exec env) (Migration (ms ! k)) (store w') = Inl c' \<and>
           migration_table (store w') = Some rows \<and> sort_key fst rows = ledger_prefix ms k))"
proof (intro conjI impI)
  assume h: "begin_lock_verify env ms w = Inr i \<and> i < length ms \<and>
      DoMigration (exec env) (Migration (ms ! i)) (store w) = Inl c"
  then have v: "begin_lock_verify env ms w = Inr i" by simp
  show one: "migrateOne env ms w =
          (w\<lparr>trace := trace w @ [EvBegin, EvLock, EvSelect, EvForward i, EvRollback]\<rparr>,
           Inl (MigrationFailed (int i) (Name (ms ! i)) c))"
    using h by (simp add: migrateOne_verified [OF v] Let_def)
  show "Migrate_loop env ms w =
          (w\<lparr>trace := trace w @ [EvBegin, EvLock, EvSelect, EvForward i, EvRollback]\<rparr>,
           Some (MigrationFailed (int i) (Name (ms ! i)) c))"
    by (simp add: Migrate_loop.simps [of env ms w] one)
  show "\<exists>rows. migration_table (store w) = Some rows \<and> sort_key fst rows = ledger_prefix ms i"
    using applied_Some [OF begin_lock_verify_Inr [OF v]] by simp
next
  assume h: "Migrate env ms w = (w', Some (MigrationFailed j n c'))"
  obtain w1 r where e: "ensureMigrationsTableExists env w = (w1, r)" by force
  from ensure_result [OF e] h e have "Migrate_loop env ms w1 = (w', Some (MigrationFailed j n c'))"
    by (auto simp: Migrate_def)
  from Migrate_loop_failed [OF this] obtain k where
    k: "j = int k" "k < length ms" "n = Name (ms ! k)"
       "DoMigration (exec env) (Migration (ms ! k)) (store w') = Inl c'"
       "applied ms (store w') = Some k" by blast
  from applied_Some [OF k(5)] k
  show "\<exists>k rows. j = int k \<and> k < length ms \<and> n = Name (ms ! k) \<and>
           DoMigration (exec env) (Migration (ms ! k)) (store w') = Inl c' \<and>
           migration_table (store w') = Some rows \<and> sort_key fst rows = ledger_prefix ms k"
    by blast
qed

theorem forward_failure_rolls_back_witness:
  "begin_lock_verify sql_log_env two_migrations after_create_t1 = Inr 1
   \<and> DoMigration (exec sql_log_env) (Migration (two_migrations ! 1)) (store after_create_t1)
       = Inl ''division by zero''
   \<and> migrateOne sql_log_env two_migrations after_create_t1 =
       (after_create_t1\<lparr>trace := trace after_create_t1 @
           [EvBegin, EvLock, EvSelect, EvForward 1, EvRollback]\<rparr>,
        Inl (MigrationFailed 1 ''Broken'' ''division by zero''))
   \<and> Migrate sql_log_env two_migrations empty_world =
       (after_create_t1\<lparr>trace := trace after_create_t1 @
           [EvBegin, EvLock, EvSelect, EvForward 1, EvRollback]\<rparr>,
        Some (MigrationFailed 1 ''Broken'' ''division by zero''))
   \<and> (\<exists>k rows. (1::int) = int k \<and> k < length two_migrations \<and>
         migration_table (store after_create_t1) = Some rows \<and>
         sort_key fst rows = ledger_prefix two_migrations k)"
proof -
  let ?w = "after_create_t1\<lparr>trace := trace after_create_t1 @
           [EvBegin, EvLock, EvSelect, EvForward 1, EvRollback]\<rparr>"
  note v = after_create_t1_verified
  have d: "DoMigration (exec sql_log_env) (Migration (two_migrations ! 1)) (store after_create_t1)
       = Inl ''division by zero''"
    by (simp add: two_migrations_def sql_log_env_def)
  have n: "1 < length two_migrations" "Name (two_migrations ! 1) = ''Broken''"
    by (simp_all add: two_migrations_def)
  from forward_failure_rolls_back [of sql_log_env two_migrations after_create_t1 1
      "''division by zero''"] v d n
  have one: "migrateOne sql_log_env two_migrations after_create_t1 =
       (?w, Inl (MigrationFailed 1 ''Broken'' ''division by zero''))"
    and loop: "Migrate_loop sql_log_env two_migrations after_create_t1 =
       (?w, Some (MigrationFailed 1 ''Broken'' ''division by zero''))"
    by simp_all
  have e: "ensureMigrationsTableExists sql_log_env empty_world
      = (empty_world\<lparr>trace := [EvCheckTable]\<rparr>, None)"
    by (simp add: ensureMigrationsTableExists_def emit_def sql_log_env_def empty_world_def)
  have m: "Migrate sql_log_env two_migrations empty_world =
       (?w, Some (MigrationFailed 1 ''Broken'' ''division by zero''))"
    by (simp add: Migrate_def e
        Migrate_loop.simps [of sql_log_env two_migrations "empty_world\<lparr>trace := [EvCheckTable]\<rparr>"]
        two_migrations_step0 loop)
  from forward_failure_rolls_back [of sql_log_env two_migrations empty_world _ _ ?w 1
      "''Broken''" "''division by zero''"] m
  have "\<exists>k rows. (1::int) = int k \<and> k < length two_migrations \<and>
         migration_table (store after_create_t1) = Some rows \<and>
         sort_key fst rows = ledger_prefix two_migrations k"
    by auto
  with v d one m show ?thesis by simp
qed

text \<open>
  Claim C5. After a successful verification that finds \<open>first\<close> (so the top applied index
  is \<open>first - 1\<close>), \<open>rollbackOne\<close> fails with \<open>InvalidTarget\<close> for a negative target, with
  \<open>NotYetApplied\<close> for a target above the top applied index, and with \<open>NoReverse\<close> when the
  target is in range and the top migration has no reverse. In each case the world it
  returns is the one it found with the trace \<open>Begin, Lock, Select, Rollback\<close> added: no
  reverse migration ran, no row was deleted, and schema and ledger are unchanged. The
  loop of \<open>Rollback\<close> returns any error of the step at once.
\<close>

theorem rollbackOne_rejects:
  assumes "begin_lock_verify env ms w = Inr first"
  shows "(through < 0 \<longrightarrow>
            rollbackOne env ms through w =
              (w\<lparr>trace := trace w @ [EvBegin, EvLock, EvSelect, EvRollback]\<rparr>,
               Inl (InvalidTarget through)))
       \<and> (int first - 1 < through \<longrightarrow>
            rollbackOne env ms through w =
              (w\<lparr>trace := trace w @ [EvBegin, EvLock, EvSelect, EvRollback]\<rparr>,
               Inl (NotYetApplied through)))
       \<and> (0 \<le> through \<and> through \<le> int first - 1 \<and> Reverse (ms ! (first - 1)) = None \<longrightarrow>
            rollbackOne env ms through w =
              (w\<lparr>trace := trace w @ [EvBegin, EvLock, EvSelect, EvRollback]\<rparr>,
               Inl (NoReverse (int first - 1) (Name (ms ! (first - 1))))))
       \<and> (\<forall>w' e. rollbackOne env ms through w = (w', Inl e) \<longrightarrow>
            Rollback_loop env ms through w = (w', Some e))"
proof (intro conjI impI allI)
  assume "through < 0"
  then show "rollbackOne env ms through w =
              (w\<lparr>trace := trace w @ [EvBegin, EvLock, EvSelect, EvRollback]\<rparr>,
               Inl (InvalidTarget through))"
    by (simp add: rollbackOne_verified [OF assms] Let_def)
next
  assume "int first - 1 < through"
  then show "rollbackOne env ms through w =
              (w\<lparr>trace := trace w @ [EvBegin, EvLock, EvSelect, EvRollback]\<rparr>,
               Inl (NotYetApplied through))"
    by (simp add: rollbackOne_verified [OF assms] Let_def)
next
  assume h: "0 \<le> through \<and> through \<le> int first - 1 \<and> Reverse (ms ! (first - 1)) = None"
  then have "int (first - 1) = int first - 1" by simp
  with h show "rollbackOne env ms through w =
              (w\<lparr>trace := trace w @ [EvBegin, EvLock, EvSelect, EvRollback]\<rparr>,
               Inl (NoReverse (int first - 1) (Name (ms ! (first - 1)))))"
    by (simp add: rollbackOne_verified [OF assms] Let_def)
next
  fix w' e
  assume "rollbackOne env ms through w = (w', Inl e)"
  then show "Rollback_loop env ms through w = (w', Some e)"
    by (simp add: Rollback_loop.simps [of env ms through w])
qed

theorem rollbackOne_rejects_witness:
  "begin_lock_verify sql_log_env test_migrations test_world = Inr 2
   \<and> rollbackOne sql_log_env test_migrations (- 1) test_world =
       (test_world\<lparr>trace := trace test_world @ [EvBegin, EvLock, EvSelect, EvRollback]\<rparr>,
        Inl (InvalidTarget (- 1)))
   \<and> rollbackOne sql_log_env test_migrations 2 test_world =
       (test_world\<lparr>trace := trace test_world @ [EvBegin, EvLock, EvSelect, EvRollback]\<rparr>,
        Inl (NotYetApplied 2))
   \<and> rollbackOne sql_log_env test_migrations 1 test_world =
       (test_world\<lparr>trace := trace test_world @ [EvBegin, EvLock, EvSelect, EvRollback]\<rparr>,
        Inl (NoReverse 1 ''another migration''))"
proof -
  note v = test_world_verified
  have r: "Reverse (test_migrations ! (2 - 1)) = None" "Name (test_migrations ! (2 - 1)) = ''another migration''"
    by (simp_all add: test_migrations_def)
  from rollbackOne_rejects [OF v, of "- 1"]
  have a: "rollbackOne sql_log_env test_migrations (- 1) test_world =
       (test_world\<lparr>trace := trace test_world @ [EvBegin, EvLock, EvSelect, EvRollback]\<rparr>,
        Inl (InvalidTarget (- 1)))" by simp
  from rollbackOne_rejects [OF v, of 2]
  have b: "rollbackOne sql_log_env test_migrations 2 test_world =
       (test_world\<lparr>trace := trace test_world @ [EvBegin, EvLock, EvSelect, EvRollback]\<rparr>,
        Inl (NotYetApplied 2))" by simp
  from rollbackOne_rejects [OF v, of 1] r
  have c: "rollbackOne sql_log_env test_migrations 1 test_world =
       (test_world\<lparr>trace := trace test_world @ [EvBegin, EvLock, EvSelect, EvRollback]\<rparr>,
        Inl (NoReverse 1 ''another migration''))" by simp
  from v a b c show ?thesis by simp
qed

text \<open>
  Claim C6, as the code has it. When the verifier of an apply-one step finds
  \<open>len(list)\<close>, \<open>migrateOne\<close> returns \<open>false, nil\<close> ("nothing migrated") without a commit:
  the deferred function rolls the transaction back, in which nothing was run and
  nothing inserted. The loop of \<open>Migrate\<close> then ends with nil.
\<close>

theorem migrateOne_nothing_left:
  assumes "begin_lock_verify env ms w = Inr (length ms)"
  shows "migrateOne env ms w =
           (w\<lparr>trace := trace w @ [EvBegin, EvLock, EvSelect, EvRollback]\<rparr>, Inr False)
       \<and> Migrate_loop env ms w =
           (w\<lparr>trace := trace w @ [EvBegin, EvLock, EvSelect, EvRollback]\<rparr>, None)"
proof -
  have one: "migrateOne env ms w =
           (w\<lparr>trace := trace w @ [EvBegin, EvLock, EvSelect, EvRollback]\<rparr>, Inr False)"
    by (simp add: migrateOne_verified [OF assms] Let_def)
  then show ?thesis by (simp add: Migrate_loop.simps [of env ms w])
qed

theorem migrateOne_nothing_left_witness:
  "begin_lock_verify sql_log_env [] empty_world = Inr (length ([] :: string list NamedMigration list))
   \<and> migrateOne sql_log_env [] empty_world =
       (empty_world\<lparr>trace := trace empty_world @ [EvBegin, EvLock, EvSelect, EvRollback]\<rparr>, Inr False)
   \<and> Migrate_loop sql_log_env [] empty_world =
       (empty_world\<lparr>trace := trace empty_world @ [EvBegin, EvLock, EvSelect, EvRollback]\<rparr>, None)"
proof -
  have h: "begin_lock_verify sql_log_env [] empty_world
      = Inr (length ([] :: string list NamedMigration list))"
    by (simp add: empty_world_verified)
  from migrateOne_nothing_left [OF h] h show ?thesis by simp
qed

text \<open>
  The claim C6 as stated says that the step commits. On the test list with both
  migrations recorded the step ends with a rollback, and no commit is in its trace.
\<close>

theorem migrateOne_commit_counterexample:
  "begin_lock_verify sql_log_env test_migrations test_world = Inr (length test_migrations)
   \<and> migrateOne sql_log_env test_migrations test_world =
       (\<lparr>store = test_database, trace = [EvBegin, EvLock, EvSelect, EvRollback]\<rparr>, Inr False)
   \<and> EvCommit \<notin> set (trace (fst (migrateOne sql_log_env test_migrations test_world)))"
proof -
  have "length test_migrations = 2" by (simp add: test_migrations_def)
  then have h: "begin_lock_verify sql_log_env test_migrations test_world
      = Inr (length test_migrations)"
    by (simp only: test_world_verified)
  have "migrateOne sql_log_env test_migrations test_world =
       (\<lparr>store = test_database, trace = [EvBegin, EvLock, EvSelect, EvRollback]\<rparr>, Inr False)"
    unfolding migrateOne_verified [OF h] by (simp add: Let_def test_world_def)
  with h show ?thesis by simp
qed

section \<open>The ledger across the loops\<close>

text \<open>
  The rows of the ledger, none when the table does not exist; and the invariant of the
  specification: the ledger holds the row \<open>(i, list[i].Name)\<close> for every \<open>i < k\<close>, each
  once, and no other row.
\<close>

definition ledger_rows :: "'s database \<Rightarrow> row list" where
  "ledger_rows db = (case migration_table db of None \<Rightarrow> [] | Some rows \<Rightarrow> rows)"

definition satisfies :: "'s NamedMigration list \<Rightarrow> 's database \<Rightarrow> nat \<Rightarrow> bool" where
  "satisfies ms db k \<longleftrightarrow> k \<le> length ms \<and> mset (ledger_rows db) = mset (ledger_prefix ms k)"

text \<open>
  A migration runs on the transaction and can write the ledger table like any other
  table. The lists whose forward and reverse migrations leave the ledger table as they
  found it, whenever they succeed:
\<close>

definition ledger_untouched :: "'s env \<Rightarrow> 's NamedMigration list \<Rightarrow> bool" where
  "ledger_untouched env ms \<longleftrightarrow>
     (\<forall>m \<in> set ms. \<forall>tx tx'.
        (DoMigration (exec env) (Migration m) tx = Inr tx'
           \<longrightarrow> migration_table tx' = migration_table tx) \<and>
        (\<forall>r. Reverse m = Some r \<longrightarrow> DoMigration (exec env) r tx = Inr tx'
           \<longrightarrow> migration_table tx' = migration_table tx))"


text \<open>
  An environment in which no call fails for a reason outside the model and no row
  stream breaks.
\<close>

definition reliable :: "'s env \<Rightarrow> bool" where
  "reliable env \<longleftrightarrow> (\<forall>tr. fault env tr = None) \<and> (\<forall>tr. cut env tr = None)"




definition stray_row_migrations :: "string list NamedMigration list" where
  "stray_row_migrations =
     [\<lparr>Name = ''A'',
       Migration = CustomMigration (\<lambda>tx. Inr (tx\<lparr>migration_table :=
          map_option (\<lambda>rows. rows @ [(5, ''stray'')]) (migration_table tx)\<rparr>)),
       Reverse = None\<rparr>]"


lemma ledger_prefix_Suc:
  "ledger_prefix ms (Suc k) = ledger_prefix ms k @ [(int k, Name (ms ! k))]"
  by (simp add: ledger_prefix_def)

lemma length_ledger_prefix [simp]: "length (ledger_prefix ms k) = k"
  by (simp add: ledger_prefix_def)

lemma fst_ledger_prefix: "map fst (ledger_prefix ms k) = map int [0..<k]"
  by (simp add: ledger_prefix_def comp_def)

lemma filter_ledger_prefix_other:
  "k \<le> j \<Longrightarrow> filter (\<lambda>r. fst r \<noteq> int j) (ledger_prefix ms k) = ledger_prefix ms k"
  by (simp add: ledger_prefix_def filter_map comp_def)

lemma filter_ledger_prefix_key:
  "i < k \<Longrightarrow> filter (\<lambda>x. int i = fst x) (ledger_prefix ms k) = [(int i, Name (ms ! i))]"
proof (induction k)
  case 0
  then show ?case by simp
next
  case (Suc k)
  show ?case
  proof (cases "i < k")
    case True
    with Suc.IH show ?thesis by (simp add: ledger_prefix_Suc)
  next
    case False
    with Suc.prems have "i = k" by simp
    moreover have "filter (\<lambda>x. int k = fst x) (ledger_prefix ms k) = []"
      by (simp add: ledger_prefix_def filter_map comp_def)
    ultimately show ?thesis by (simp add: ledger_prefix_Suc)
  qed
qed

lemma sort_ledger_prefix_iff:
  "sort_key fst rows = ledger_prefix ms k \<longleftrightarrow> mset rows = mset (ledger_prefix ms k)"
proof
  assume "sort_key fst rows = ledger_prefix ms k"
  then have "mset (sort_key fst rows) = mset (ledger_prefix ms k)" by simp
  then show "mset rows = mset (ledger_prefix ms k)" by simp
next
  assume m: "mset rows = mset (ledger_prefix ms k)"
  show "sort_key fst rows = ledger_prefix ms k"
  proof (rule properties_for_sort_key)
    show "mset (ledger_prefix ms k) = mset rows" using m by simp
    show "sorted (map fst (ledger_prefix ms k))"
      by (simp add: fst_ledger_prefix sorted_iff_nth_mono)
  next
    fix r assume "r \<in> set (ledger_prefix ms k)"
    then obtain i where i: "i < k" "r = (int i, Name (ms ! i))"
      by (auto simp: ledger_prefix_def)
    have "mset (filter (\<lambda>x. fst r = fst x) rows)
        = mset (filter (\<lambda>x. fst r = fst x) (ledger_prefix ms k))"
      using m by simp
    also have "\<dots> = {#r#}" using i by (simp add: filter_ledger_prefix_key)
    finally have "filter (\<lambda>x. fst r = fst x) rows = [r]" by (simp only: mset_single_iff)
    moreover have "filter (\<lambda>x. fst r = fst x) (ledger_prefix ms k) = [r]"
      using i by (simp add: filter_ledger_prefix_key)
    ultimately show "filter (\<lambda>x. fst r = fst x) (ledger_prefix ms k)
        = filter (\<lambda>x. fst r = fst x) rows" by simp
  qed
qed

lemma satisfies_unique:
  "satisfies ms db k \<Longrightarrow> satisfies ms db k' \<Longrightarrow> k = k'"
proof -
  assume "satisfies ms db k" "satisfies ms db k'"
  then have "mset (ledger_prefix ms k) = mset (ledger_prefix ms k')"
    by (simp add: satisfies_def)
  then have "size (mset (ledger_prefix ms k)) = size (mset (ledger_prefix ms k'))" by simp
  then show ?thesis by simp
qed

lemma applied_satisfies:
  "applied ms db = Some k \<Longrightarrow> satisfies ms db k"
  using applied_Some [of ms db k]
  by (auto simp: satisfies_def ledger_rows_def sort_ledger_prefix_iff)

lemma verified_satisfies:
  assumes "begin_lock_verify env ms w = Inr first" "satisfies ms (store w) k"
  shows "first = k"
  using applied_satisfies [OF begin_lock_verify_Inr [OF assms(1)]] assms(2)
  by (rule satisfies_unique)

lemma satisfies_insert:
  assumes "satisfies ms db k" "k < length ms" "migration_table db = Some rows"
  shows "satisfies ms (db\<lparr>migration_table := Some (rows @ [(int k, Name (ms ! k))])\<rparr>) (Suc k)"
  using assms by (simp add: satisfies_def ledger_rows_def ledger_prefix_Suc)

lemma satisfies_delete:
  assumes "satisfies ms db k" "0 < k" "migration_table db = Some rows"
  shows "satisfies ms
     (db\<lparr>migration_table := Some (filter (\<lambda>r. fst r \<noteq> int (k - 1)) rows)\<rparr>) (k - 1)"
proof -
  from assms(2) obtain j where k: "k = Suc j" by (cases k) auto
  from assms(1,3) have m: "mset rows = mset (ledger_prefix ms k)" and le: "k \<le> length ms"
    by (simp_all add: satisfies_def ledger_rows_def)
  have "mset (filter (\<lambda>r. fst r \<noteq> int j) rows)
      = mset (filter (\<lambda>r. fst r \<noteq> int j) (ledger_prefix ms (Suc j)))"
    using m k by simp
  also have "\<dots> = mset (ledger_prefix ms j)"
    by (simp add: ledger_prefix_Suc filter_ledger_prefix_other)
  finally show ?thesis using k le by (simp add: satisfies_def ledger_rows_def)
qed

lemma untouched_forward:
  assumes "ledger_untouched env ms" "k < length ms"
    "DoMigration (exec env) (Migration (ms ! k)) tx = Inr tx'"
  shows "migration_table tx' = migration_table tx"
proof -
  have "ms ! k \<in> set ms" using assms(2) by simp
  with assms(1,3) show ?thesis unfolding ledger_untouched_def by blast
qed

lemma untouched_reverse:
  assumes "ledger_untouched env ms" "k < length ms" "Reverse (ms ! k) = Some r"
    "DoMigration (exec env) r tx = Inr tx'"
  shows "migration_table tx' = migration_table tx"
proof -
  have "ms ! k \<in> set ms" using assms(2) by simp
  with assms(1,3,4) show ?thesis unfolding ledger_untouched_def by blast
qed

lemma migrateOne_inv:
  assumes u: "ledger_untouched env ms" and s: "satisfies ms (store w) k"
    and m: "migrateOne env ms w = (w', r)"
  shows "(store w' = store w \<and> r \<noteq> Inr True) \<or>
         (r = Inr True \<and> k < length ms \<and>
          migration_table (store w') = Some (ledger_rows (store w) @ [(int k, Name (ms ! k))]) \<and>
          satisfies ms (store w') (Suc k))"
proof -
  from migrateOne_store [OF m] show ?thesis
  proof
    assume "store w' = store w \<and> r \<noteq> Inr True"
    then show ?thesis by simp
  next
    assume "r = Inr True \<and> (\<exists>first tx1.
            begin_lock_verify env ms w = Inr first \<and> first < length ms \<and>
            DoMigration (exec env) (Migration (ms ! first)) (store w) = Inr tx1 \<and>
            insert_row env (trace w @ [EvBegin, EvLock, EvSelect, EvForward first,
               EvInsert (int first) (Name (ms ! first))]) tx1 (int first, Name (ms ! first))
              = Inr (store w'))"
    then obtain first tx1 where r: "r = Inr True"
      and v: "begin_lock_verify env ms w = Inr first" and lt: "first < length ms"
      and d: "DoMigration (exec env) (Migration (ms ! first)) (store w) = Inr tx1"
      and i: "insert_row env (trace w @ [EvBegin, EvLock, EvSelect, EvForward first,
               EvInsert (int first) (Name (ms ! first))]) tx1 (int first, Name (ms ! first))
              = Inr (store w')" by blast
    from verified_satisfies [OF v s] have fk: "first = k" .
    from untouched_forward [OF u lt d] have t: "migration_table tx1 = migration_table (store w)" .
    from insert_row_Inr [OF i] obtain rows where
      rows: "migration_table tx1 = Some rows"
      and w': "store w' = tx1\<lparr>migration_table := Some (rows @ [(int first, Name (ms ! first))])\<rparr>"
      by auto
    from rows t have lr: "ledger_rows (store w) = rows" "ledger_rows tx1 = rows"
      by (simp_all add: ledger_rows_def)
    from s lr have s1: "satisfies ms tx1 k" by (simp add: satisfies_def)
    from satisfies_insert [OF s1 _ rows] lt fk w'
    have "satisfies ms (store w') (Suc k)" by simp
    with r lt fk w' lr show ?thesis by simp
  qed
qed

lemma rollbackOne_inv:
  assumes u: "ledger_untouched env ms" and s: "satisfies ms (store w) k"
    and m: "rollbackOne env ms through w = (w', r)"
  shows "(store w' = store w \<and> isl r) \<or>
         (r = Inr (k - 1) \<and> 0 < k \<and> 0 \<le> through \<and> through < int k \<and>
          migration_table (store w')
            = Some (filter (\<lambda>r. fst r \<noteq> int (k - 1)) (ledger_rows (store w))) \<and>
          satisfies ms (store w') (k - 1))"
proof -
  from rollbackOne_store [OF m] show ?thesis
  proof
    assume "store w' = store w \<and> isl r"
    then show ?thesis by simp
  next
    assume "\<exists>first rv tx1.
            r = Inr (first - 1) \<and>
            begin_lock_verify env ms w = Inr first \<and> 0 \<le> through \<and> through < int first \<and>
            Reverse (ms ! (first - 1)) = Some rv \<and>
            DoMigration (exec env) rv (store w) = Inr tx1 \<and>
            delete_row env (trace w @ [EvBegin, EvLock, EvSelect, EvReverse (first - 1),
               EvDelete (int (first - 1))]) tx1 (int (first - 1)) = Inr (store w')"
    then obtain first rv tx1 where r: "r = Inr (first - 1)"
      and v: "begin_lock_verify env ms w = Inr first"
      and th: "0 \<le> through" "through < int first"
      and rev: "Reverse (ms ! (first - 1)) = Some rv"
      and d: "DoMigration (exec env) rv (store w) = Inr tx1"
      and del: "delete_row env (trace w @ [EvBegin, EvLock, EvSelect, EvReverse (first - 1),
               EvDelete (int (first - 1))]) tx1 (int (first - 1)) = Inr (store w')" by blast
    from verified_satisfies [OF v s] have fk: "first = k" .
    from th have pos: "0 < first" by simp
    from s fk have "first \<le> length ms" by (simp add: satisfies_def)
    with pos have lt: "first - 1 < length ms" by simp
    from untouched_reverse [OF u lt rev d]
    have t: "migration_table tx1 = migration_table (store w)" .
    from delete_row_Inr [OF del] obtain rows where
      rows: "migration_table tx1 = Some rows"
      and w': "store w' = tx1\<lparr>migration_table :=
                 Some (filter (\<lambda>r. fst r \<noteq> int (first - 1)) rows)\<rparr>"
      by auto
    from rows t have lr: "ledger_rows (store w) = rows" "ledger_rows tx1 = rows"
      by (simp_all add: ledger_rows_def)
    from s lr have s1: "satisfies ms tx1 k" by (simp add: satisfies_def)
    from satisfies_delete [OF s1 _ rows] pos fk w'
    have "satisfies ms (store w') (k - 1)" by simp
    with r th pos fk w' lr show ?thesis by simp
  qed
qed


lemma ensure_store:
  assumes "ensureMigrationsTableExists env w = (w1, r)"
  shows "ledger_rows (store w1) = ledger_rows (store w)
       \<and> (migration_table (store w) \<noteq> None \<longrightarrow>
            store w1 = store w \<and> trace w1 = trace w @ [EvCheckTable])"
  using assms
  by (auto simp: ensureMigrationsTableExists_def Let_def emit_def ledger_rows_def
      split: option.splits if_splits)

lemma ensure_satisfies:
  assumes "ensureMigrationsTableExists env w = (w1, r)" "satisfies ms (store w) k"
  shows "satisfies ms (store w1) k"
  using ensure_store [OF assms(1)] assms(2) by (simp add: satisfies_def)

lemma Migrate_loop_inv:
  assumes "ledger_untouched env ms" "satisfies ms (store w) k"
  shows "\<exists>k'. k \<le> k' \<and> satisfies ms (store (fst (Migrate_loop env ms w))) k'"
  using assms
proof (induction env ms w arbitrary: k rule: Migrate_loop.induct)
  case (1 env ms w)
  obtain w1 r where m: "migrateOne env ms w = (w1, r)" by force
  from migrateOne_inv [OF "1.prems" m] show ?case
  proof
    assume a: "store w1 = store w \<and> r \<noteq> Inr True"
    then have "fst (Migrate_loop env ms w) = w1"
      using m by (cases r) (auto simp: Migrate_loop.simps [of env ms w])
    with a "1.prems"(2) show ?thesis by auto
  next
    assume a: "r = Inr True \<and> k < length ms \<and>
          migration_table (store w1) = Some (ledger_rows (store w) @ [(int k, Name (ms ! k))]) \<and>
          satisfies ms (store w1) (Suc k)"
    then have l: "Migrate_loop env ms w = Migrate_loop env ms w1"
      using m by (simp add: Migrate_loop.simps [of env ms w])
    have "(w1, r) = migrateOne env ms w" "r = Inr True" "\<not> \<not> True" using m a by simp_all
    from "1.IH" [OF this "1.prems"(1)] a
    obtain k' where "Suc k \<le> k'" "satisfies ms (store (fst (Migrate_loop env ms w1))) k'"
      by blast
    with l show ?thesis by (intro exI [of _ k']) simp
  qed
qed

lemma Rollback_loop_inv:
  assumes "ledger_untouched env ms" "satisfies ms (store w) k"
  shows "\<exists>k'. k' \<le> k \<and> satisfies ms (store (fst (Rollback_loop env ms through w))) k'"
  using assms
proof (induction env ms through w arbitrary: k rule: Rollback_loop.induct)
  case (1 env ms through w)
  obtain w1 r where m: "rollbackOne env ms through w = (w1, r)" by force
  from rollbackOne_inv [OF "1.prems" m] show ?case
  proof
    assume a: "store w1 = store w \<and> isl r"
    then have "fst (Rollback_loop env ms through w) = w1"
      using m by (cases r) (auto simp: Rollback_loop.simps [of env ms through w])
    with a "1.prems"(2) show ?thesis by auto
  next
    assume a: "r = Inr (k - 1) \<and> 0 < k \<and> 0 \<le> through \<and> through < int k \<and>
          migration_table (store w1)
            = Some (filter (\<lambda>r. fst r \<noteq> int (k - 1)) (ledger_rows (store w))) \<and>
          satisfies ms (store w1) (k - 1)"
    show ?thesis
    proof (cases "int (k - 1) = through")
      case True
      then have "fst (Rollback_loop env ms through w) = w1"
        using m a by (simp add: Rollback_loop.simps [of env ms through w])
      with a show ?thesis by (intro exI [of _ "k - 1"]) simp
    next
      case False
      then have l: "Rollback_loop env ms through w = Rollback_loop env ms through w1"
        using m a by (simp add: Rollback_loop.simps [of env ms through w])
      have "(w1, r) = rollbackOne env ms through w" "r = Inr (k - 1)" using m a by simp_all
      from "1.IH" [OF this False "1.prems"(1)] a
      obtain k' where "k' \<le> k - 1"
        "satisfies ms (store (fst (Rollback_loop env ms through w1))) k'"
        by blast
      with l show ?thesis by (intro exI [of _ k']) simp
    qed
  qed
qed


lemma satisfies_indices:
  assumes "satisfies ms db k"
  shows "fst ` set (ledger_rows db) = int ` {0..<k}
       \<and> (\<forall>i<k. (int i, Name (ms ! i)) \<in> set (ledger_rows db))"
proof -
  from assms have "mset (ledger_rows db) = mset (ledger_prefix ms k)"
    by (simp add: satisfies_def)
  then have "set (ledger_rows db) = set (ledger_prefix ms k)" by (rule mset_eq_setD)
  then show ?thesis by (force simp: ledger_prefix_def)
qed


lemma sql_log_static:
  "DoStatic (exec sql_log_env) sqls tx = Inr tx' \<Longrightarrow> migration_table tx' = migration_table tx"
proof (induction sqls arbitrary: tx)
  case Nil
  then show ?case by simp
next
  case (Cons sql sqls)
  show ?case
  proof (cases "sql = ''SELECT 1/0''")
    case True
    with Cons.prems show ?thesis by (simp add: sql_log_env_def)
  next
    case False
    with Cons.prems
    have "DoStatic (exec sql_log_env) sqls (tx\<lparr>schema := schema tx @ [sql]\<rparr>) = Inr tx'"
      by (simp add: sql_log_env_def)
    from Cons.IH [OF this] show ?thesis by simp
  qed
qed

lemma two_migrations_untouched: "ledger_untouched sql_log_env two_migrations"
  by (auto simp: ledger_untouched_def two_migrations_def simp del: DoStatic.simps
      dest: sql_log_static)



text \<open>
  Claim C2, for the lists that leave the ledger table alone. If the ledger satisfies the
  list with \<open>k\<close> rows, then after \<open>Migrate\<close> it satisfies the list with some \<open>k' \<ge> k\<close> rows
  and after \<open>Rollback\<close> with some \<open>k' \<le> k\<close> rows, whatever the calls return and whatever
  fails on the way. A committed \<open>migrateOne\<close> has appended exactly the row
  \<open>(k, list[k].Name)\<close>; a committed \<open>rollbackOne\<close> has rolled back index \<open>k - 1\<close> and deleted
  exactly the row of that index. A ledger that satisfies the list with \<open>j\<close> rows has the
  indices \<open>0, ..., j - 1\<close> and at each index the declared name.
\<close>

theorem ledger_prefix_invariant:
  assumes "ledger_untouched env ms" "satisfies ms (store w) k"
  shows "(\<exists>k'. k \<le> k' \<and> satisfies ms (store (fst (Migrate env ms w))) k')
       \<and> (\<exists>k'. k' \<le> k \<and> satisfies ms (store (fst (Rollback env ms through w))) k')
       \<and> (\<forall>w'. migrateOne env ms w = (w', Inr True) \<longrightarrow>
            k < length ms \<and>
            migration_table (store w') = Some (ledger_rows (store w) @ [(int k, Name (ms ! k))]))
       \<and> (\<forall>w' i. rollbackOne env ms through w = (w', Inr i) \<longrightarrow>
            i = k - 1 \<and> 0 < k \<and>
            migration_table (store w')
              = Some (filter (\<lambda>r. fst r \<noteq> int (k - 1)) (ledger_rows (store w))))
       \<and> (\<forall>db j. satisfies ms db j \<longrightarrow>
            fst ` set (ledger_rows db) = int ` {0..<j} \<and>
            (\<forall>i<j. (int i, Name (ms ! i)) \<in> set (ledger_rows db)))"
proof (intro conjI allI impI)
  obtain w1 r where e: "ensureMigrationsTableExists env w = (w1, r)" by force
  from ensure_satisfies [OF e assms(2)] have s1: "satisfies ms (store w1) k" .
  show "\<exists>k'. k \<le> k' \<and> satisfies ms (store (fst (Migrate env ms w))) k'"
  proof (cases r)
    case None
    with e have "Migrate env ms w = Migrate_loop env ms w1" by (simp add: Migrate_def)
    with Migrate_loop_inv [OF assms(1) s1] show ?thesis by simp
  next
    case (Some err)
    with e have "fst (Migrate env ms w) = w1" by (simp add: Migrate_def)
    with s1 show ?thesis by auto
  qed
  show "\<exists>k'. k' \<le> k \<and> satisfies ms (store (fst (Rollback env ms through w))) k'"
  proof (cases r)
    case None
    with e have "Rollback env ms through w = Rollback_loop env ms through w1"
      by (simp add: Rollback_def)
    with Rollback_loop_inv [OF assms(1) s1] show ?thesis by simp
  next
    case (Some err)
    with e have "fst (Rollback env ms through w) = w1" by (simp add: Rollback_def)
    with s1 show ?thesis by auto
  qed
next
  fix w' assume m: "migrateOne env ms w = (w', Inr True)"
  from migrateOne_inv [OF assms m]
  show "k < length ms" and
    "migration_table (store w') = Some (ledger_rows (store w) @ [(int k, Name (ms ! k))])"
    by simp_all
next
  fix w' i assume m: "rollbackOne env ms through w = (w', Inr i)"
  from rollbackOne_inv [OF assms m]
  show "i = k - 1" and "0 < k" and
    "migration_table (store w')
       = Some (filter (\<lambda>r. fst r \<noteq> int (k - 1)) (ledger_rows (store w)))"
    by simp_all
next
  fix db j assume s: "satisfies ms db j"
  from satisfies_indices [OF s]
  show "fst ` set (ledger_rows db) = int ` {0..<j}" by simp
  fix i assume "i < j"
  with satisfies_indices [OF s] show "(int i, Name (ms ! i)) \<in> set (ledger_rows db)" by simp
qed

theorem ledger_prefix_invariant_witness:
  "ledger_untouched sql_log_env two_migrations
   \<and> satisfies two_migrations (store empty_world) 0
   \<and> (\<exists>k'. 0 \<le> k' \<and>
         satisfies two_migrations (store (fst (Migrate sql_log_env two_migrations empty_world))) k')
   \<and> (\<exists>k'. k' \<le> 0 \<and>
         satisfies two_migrations
           (store (fst (Rollback sql_log_env two_migrations 0 empty_world))) k')"
proof -
  have s: "satisfies two_migrations (store empty_world) 0"
    by (simp add: satisfies_def ledger_rows_def empty_world_def ledger_prefix_def)
  from ledger_prefix_invariant [OF two_migrations_untouched s, of 0]
    two_migrations_untouched s
  show ?thesis by simp
qed

text \<open>
  The claim C2 as stated speaks of every declared list. A custom migration that inserts
  a row with index 5 into the ledger table breaks it: \<open>Migrate\<close> commits the step, finds the
  stray row on the next verification and returns, leaving the rows 5 and 0.
\<close>

theorem ledger_prefix_counterexample:
  "satisfies stray_row_migrations (store empty_world) 0
   \<and> ledger_rows (store (fst (Migrate sql_log_env stray_row_migrations empty_world)))
       = [(5, ''stray''), (0, ''A'')]
   \<and> \<not> (\<exists>k. satisfies stray_row_migrations
            (store (fst (Migrate sql_log_env stray_row_migrations empty_world))) k)"
proof -
  let ?w0 = "empty_world\<lparr>trace := [EvCheckTable]\<rparr>"
  let ?w1 = "\<lparr>store = \<lparr>migration_table = Some [(5, ''stray''), (0, ''A'')], schema = []\<rparr>,
       trace = [EvCheckTable, EvBegin, EvLock, EvSelect, EvForward 0, EvInsert 0 ''A'',
                EvCommit]\<rparr> :: string list world"
  have s: "satisfies stray_row_migrations (store empty_world) 0"
    by (simp add: satisfies_def ledger_rows_def empty_world_def ledger_prefix_def)
  have e: "ensureMigrationsTableExists sql_log_env empty_world = (?w0, None)"
    by (simp add: ensureMigrationsTableExists_def emit_def sql_log_env_def empty_world_def)
  have v0: "begin_lock_verify sql_log_env stray_row_migrations ?w0 = Inr 0"
    by (simp add: begin_lock_verify_def sql_log_env_def empty_world_def
      lock_table_def verifyMigrations_def query_ledger_def)
  have s0: "migrateOne sql_log_env stray_row_migrations ?w0 = (?w1, Inr True)"
    unfolding migrateOne_verified [OF v0]
    by (simp add: Let_def stray_row_migrations_def sql_log_env_def empty_world_def
        insert_row_def)
  have v1: "begin_lock_verify sql_log_env stray_row_migrations ?w1
      = Inl (UnknownMigrationInLedger 5 ''stray'')"
    by (simp add: begin_lock_verify_def sql_log_env_def
      lock_table_def verifyMigrations_def query_ledger_def stray_row_migrations_def)
  note r1 = migrateOne_refused [OF v1]
  obtain w2 where s1: "migrateOne sql_log_env stray_row_migrations ?w1
      = (w2, Inl (UnknownMigrationInLedger 5 ''stray''))" and w2: "store w2 = store ?w1"
    using r1 by (cases "migrateOne sql_log_env stray_row_migrations ?w1") auto
  have l1: "Migrate_loop sql_log_env stray_row_migrations ?w1
      = (w2, Some (UnknownMigrationInLedger 5 ''stray''))"
    by (subst Migrate_loop.simps, simp only: s1, simp)
  have l0: "Migrate_loop sql_log_env stray_row_migrations ?w0
      = (w2, Some (UnknownMigrationInLedger 5 ''stray''))"
    by (subst Migrate_loop.simps, simp only: s0, insert l1, simp)
  have m: "Migrate sql_log_env stray_row_migrations empty_world
      = (w2, Some (UnknownMigrationInLedger 5 ''stray''))"
    by (simp only: Migrate_def e, insert l0, simp)
  have rows: "ledger_rows (store (fst (Migrate sql_log_env stray_row_migrations empty_world)))
       = [(5, ''stray''), (0, ''A'')]"
    by (simp add: m w2 ledger_rows_def)
  have "\<not> satisfies stray_row_migrations
            (store (fst (Migrate sql_log_env stray_row_migrations empty_world))) k" for k
  proof
    assume a: "satisfies stray_row_migrations
            (store (fst (Migrate sql_log_env stray_row_migrations empty_world))) k"
    then have "k \<le> 1" by (simp add: satisfies_def stray_row_migrations_def)
    moreover from a have "length [(5::int, ''stray''), (0, ''A'')] = k"
      using mset_eq_length [of "[(5::int, ''stray''), (0, ''A'')]"
          "ledger_prefix stray_row_migrations k"]
      by (simp add: satisfies_def rows)
    ultimately show False by simp
  qed
  with s rows show ?thesis by blast
qed













section \<open>The round-trip tester and the dumper\<close>

text \<open>
  The configuration of \<open>cmd/schema-test/main.go\<close> (with the port set), a database with a
  stray table, and a database with nothing in it.
\<close>

definition schema_test_config :: PostgresConfig where
  "schema_test_config =
     \<lparr>Host = ''localhost'', Port = ''5432'', Database = ''postgres'', User = ''postgres'',
      Password = ''postgres''\<rparr>"

definition stray_table_world :: "string list world" where
  "stray_table_world =
     \<lparr>store = \<lparr>migration_table = None, schema = [''CREATE TABLE stray'']\<rparr>, trace = []\<rparr>"

definition fresh_world :: "string list world" where
  "fresh_world = \<lparr>store = \<lparr>migration_table = None, schema = []\<rparr>, trace = []\<rparr>"

text \<open>
  Claim C10. If one of the five fields of the configuration is the empty string,
  \<open>SchemaTest\<close> (either copy) returns the error "All PostgresConfig fields must be
  specified" and the world as it found it: the trace has no new event, so nothing was
  connected to, dumped or migrated.
\<close>

theorem SchemaTest_incomplete_config:
  assumes "Host c = '''' \<or> Port c = '''' \<or> Database c = '''' \<or> User c = '''' \<or> Password c = ''''"
  shows "SchemaTest env c ms w
           = (w, Some (errors_New ''All PostgresConfig fields must be specified''))
       \<and> SchemaTest_part_003 env c ms w
           = (w, Some (errors_New ''All PostgresConfig fields must be specified''))"
proof -
  from assms have "'''' \<in> set [Host c, Port c, Database c, User c, Password c]" by auto
  then show ?thesis by (simp only: SchemaTest_def SchemaTest_part_003_def if_True)
qed

theorem SchemaTest_incomplete_config_witness:
  "Port (schema_test_config\<lparr>Port := ''''\<rparr>) = ''''
   \<and> SchemaTest sql_log_env (schema_test_config\<lparr>Port := ''''\<rparr>) two_migrations fresh_world
       = (fresh_world, Some (errors_New ''All PostgresConfig fields must be specified''))
   \<and> SchemaTest_part_003 sql_log_env (schema_test_config\<lparr>Port := ''''\<rparr>) two_migrations
         fresh_world
       = (fresh_world, Some (errors_New ''All PostgresConfig fields must be specified''))"
proof -
  have p: "Port (schema_test_config\<lparr>Port := ''''\<rparr>) = ''''" by simp
  then have "Host (schema_test_config\<lparr>Port := ''''\<rparr>) = '''' \<or>
      Port (schema_test_config\<lparr>Port := ''''\<rparr>) = '''' \<or>
      Database (schema_test_config\<lparr>Port := ''''\<rparr>) = '''' \<or>
      User (schema_test_config\<lparr>Port := ''''\<rparr>) = '''' \<or>
      Password (schema_test_config\<lparr>Port := ''''\<rparr>) = ''''" by blast
  from SchemaTest_incomplete_config [OF this, of sql_log_env two_migrations fresh_world] p
  show ?thesis by blast
qed

text \<open>
  Claim C8. With a complete configuration, a connection that succeeds and a catalog
  query that answers, if the database holds a relation outside the system schemas then
  \<open>SchemaTest\<close> (either copy) returns the error "Existing tables found. You must run
  SchemaTest on an empty database." The world it returns has the store it found and the
  trace of the connection and the catalog query only: the ledger table was not created,
  no migration ran and no dump was taken.
\<close>

theorem SchemaTest_refuses_nonempty:
  assumes "'''' \<notin> set [Host c, Port c, Database c, User c, Password c]"
    and "fault env (trace w @ [EvConnect (postgresConnectionString c)]) = None"
    and "fault env (trace w @ [EvConnect (postgresConnectionString c), EvCatalogQuery]) = None"
    and "user_relations env (store w)"
  shows "SchemaTest env c ms w =
           (w\<lparr>trace := trace w @ [EvConnect (postgresConnectionString c), EvCatalogQuery]\<rparr>,
            Some (errors_New
              ''Existing tables found. You must run SchemaTest on an empty database.''))
       \<and> SchemaTest_part_003 env c ms w =
           (w\<lparr>trace := trace w @ [EvConnect (postgresConnectionString c), EvCatalogQuery]\<rparr>,
            Some (errors_New
              ''Existing tables found. You must run SchemaTest on an empty database.''))"
proof -
  let ?w1 = "emit (EvConnect (postgresConnectionString c)) w"
  have v: "verifyNoTables env ?w1 =
      (w\<lparr>trace := trace w @ [EvConnect (postgresConnectionString c), EvCatalogQuery]\<rparr>,
       Some (errors_New
              ''Existing tables found. You must run SchemaTest on an empty database.''))"
    using assms(3,4) by (simp add: verifyNoTables_def emit_def Let_def)
  have f: "fault env (trace ?w1) = None" using assms(2) by (simp add: emit_def)
  show ?thesis
    using assms(1) by (simp only: SchemaTest_def SchemaTest_part_003_def Let_def f v if_False)
      simp
qed

theorem SchemaTest_refuses_nonempty_witness:
  "'''' \<notin> set [Host schema_test_config, Port schema_test_config, Database schema_test_config,
                  User schema_test_config, Password schema_test_config]
   \<and> user_relations sql_log_env (store stray_table_world)
   \<and> SchemaTest sql_log_env schema_test_config two_migrations stray_table_world =
       (stray_table_world\<lparr>trace := trace stray_table_world @
           [EvConnect (postgresConnectionString schema_test_config), EvCatalogQuery]\<rparr>,
        Some (errors_New
              ''Existing tables found. You must run SchemaTest on an empty database.''))
   \<and> SchemaTest_part_003 sql_log_env schema_test_config two_migrations stray_table_world =
       (stray_table_world\<lparr>trace := trace stray_table_world @
           [EvConnect (postgresConnectionString schema_test_config), EvCatalogQuery]\<rparr>,
        Some (errors_New
              ''Existing tables found. You must run SchemaTest on an empty database.''))"
proof -
  have a: "'''' \<notin> set [Host schema_test_config, Port schema_test_config,
      Database schema_test_config, User schema_test_config, Password schema_test_config]"
    by (simp add: schema_test_config_def)
  have b: "fault sql_log_env tr = None" for tr by (simp add: sql_log_env_def)
  have c: "user_relations sql_log_env (store stray_table_world)"
    by (simp add: user_relations_def sql_log_env_def stray_table_world_def)
  from SchemaTest_refuses_nonempty [OF a b b c, of two_migrations] a c
  show ?thesis by blast
qed

lemma reliable_empty_verified:
  assumes "reliable env" "migration_table (store w) = Some []"
  shows "begin_lock_verify env ms w = Inr 0"
  using assms
  by (simp add: reliable_def begin_lock_verify_def lock_table_def verifyMigrations_def
      query_ledger_def)

lemma Migrate_loop_empty_list:
  assumes "reliable env" "migration_table (store w) = Some []"
  shows "Migrate_loop env [] w
           = (w\<lparr>trace := trace w @ [EvBegin, EvLock, EvSelect, EvRollback]\<rparr>, None)"
proof -
  note v = reliable_empty_verified [OF assms, of "[]"]
  have "migrateOne env [] w
      = (w\<lparr>trace := trace w @ [EvBegin, EvLock, EvSelect, EvRollback]\<rparr>, Inr False)"
    unfolding migrateOne_verified [OF v] by (simp add: Let_def)
  then show ?thesis by (subst Migrate_loop.simps) simp
qed

lemma Migrate_empty_list:
  assumes "reliable env" "ledger_rows (store w) = []"
  shows "Migrate env [] w =
           (\<lparr>store = (store w)\<lparr>migration_table := Some []\<rparr>,
             trace = trace w @
               (if migration_table (store w) = None then [EvCheckTable, EvCreateTable]
                else [EvCheckTable]) @ [EvBegin, EvLock, EvSelect, EvRollback]\<rparr>, None)"
proof (cases "migration_table (store w)")
  case None
  let ?w1 = "\<lparr>store = (store w)\<lparr>migration_table := Some []\<rparr>,
              trace = trace w @ [EvCheckTable, EvCreateTable]\<rparr>"
  have e: "ensureMigrationsTableExists env w = (?w1, None)"
    using assms(1) None
    by (simp add: ensureMigrationsTableExists_def emit_def Let_def reliable_def)
  have "Migrate_loop env [] ?w1
      = (?w1\<lparr>trace := trace ?w1 @ [EvBegin, EvLock, EvSelect, EvRollback]\<rparr>, None)"
    by (rule Migrate_loop_empty_list [OF assms(1)]) simp
  with e None show ?thesis by (simp add: Migrate_def)
next
  case (Some rows)
  with assms(2) have t: "migration_table (store w) = Some []" by (simp add: ledger_rows_def)
  let ?w1 = "w\<lparr>trace := trace w @ [EvCheckTable]\<rparr>"
  have e: "ensureMigrationsTableExists env w = (?w1, None)"
    using assms(1) t
    by (simp add: ensureMigrationsTableExists_def emit_def Let_def reliable_def)
  have "Migrate_loop env [] ?w1
      = (?w1\<lparr>trace := trace ?w1 @ [EvBegin, EvLock, EvSelect, EvRollback]\<rparr>, None)"
    by (rule Migrate_loop_empty_list [OF assms(1)]) (simp add: t)
  moreover have "(store w)\<lparr>migration_table := Some []\<rparr> = store w" using t by simp
  ultimately show ?thesis using e t by (simp add: Migrate_def)
qed

lemma migrateOne_empty_list:
  assumes "migrateOne env [] w = (w', r)"
  shows "store w' = store w \<and> r \<noteq> Inr True
       \<and> (\<exists>new. trace w' = trace w @ new \<and> set new \<subseteq> {EvBegin, EvLock, EvSelect, EvRollback})"
  using assms
  by (auto simp: migrateOne_def emit_def Let_def split: option.splits sum.splits)

lemma Migrate_loop_empty_list_any:
  "store (fst (Migrate_loop env [] w)) = store w
   \<and> (\<exists>new. trace (fst (Migrate_loop env [] w)) = trace w @ new
          \<and> set new \<subseteq> {EvBegin, EvLock, EvSelect, EvRollback})"
proof -
  obtain w' r where m: "migrateOne env [] w = (w', r)" by force
  from migrateOne_empty_list [OF m] have "r \<noteq> Inr True" by simp
  then have "fst (Migrate_loop env [] w) = w'"
    using m by (subst Migrate_loop.simps) (auto split: sum.splits)
  with migrateOne_empty_list [OF m] show ?thesis by simp
qed

lemma ensure_trace:
  assumes "ensureMigrationsTableExists env w = (w1, r)"
  shows "schema (store w1) = schema (store w)
       \<and> (\<exists>new. trace w1 = trace w @ new \<and> set new \<subseteq> {EvCheckTable, EvCreateTable})"
  using assms
  by (auto simp: ensureMigrationsTableExists_def Let_def emit_def
      split: option.splits if_splits)

lemma Migrate_empty_list_any:
  "schema (store (fst (Migrate env [] w))) = schema (store w)
   \<and> ledger_rows (store (fst (Migrate env [] w))) = ledger_rows (store w)
   \<and> (\<exists>new. trace (fst (Migrate env [] w)) = trace w @ new
          \<and> set new \<subseteq> {EvCheckTable, EvCreateTable, EvBegin, EvLock, EvSelect, EvRollback})"
proof -
  obtain w1 r where e: "ensureMigrationsTableExists env w = (w1, r)" by force
  from ensure_trace [OF e] obtain n1 where
    s1: "schema (store w1) = schema (store w)" and t1: "trace w1 = trace w @ n1"
    and n1: "set n1 \<subseteq> {EvCheckTable, EvCreateTable}" by blast
  from ensure_store [OF e] have l1: "ledger_rows (store w1) = ledger_rows (store w)" by simp
  show ?thesis
  proof (cases r)
    case (Some err)
    with e have "fst (Migrate env [] w) = w1" by (simp add: Migrate_def)
    moreover have "trace w1 = trace w @ n1 \<and>
        set n1 \<subseteq> {EvCheckTable, EvCreateTable, EvBegin, EvLock, EvSelect, EvRollback}"
      using t1 n1 by auto
    ultimately show ?thesis using s1 l1 by auto
  next
    case None
    with e have m: "Migrate env [] w = Migrate_loop env [] w1" by (simp add: Migrate_def)
    from Migrate_loop_empty_list_any [of env w1] obtain n2 where
      s2: "store (fst (Migrate_loop env [] w1)) = store w1"
      and t2: "trace (fst (Migrate_loop env [] w1)) = trace w1 @ n2"
      and n2: "set n2 \<subseteq> {EvBegin, EvLock, EvSelect, EvRollback}" by blast
    have "trace (fst (Migrate env [] w)) = trace w @ (n1 @ n2) \<and>
        set (n1 @ n2) \<subseteq> {EvCheckTable, EvCreateTable, EvBegin, EvLock, EvSelect, EvRollback}"
      using m t1 t2 n1 n2 by auto
    then show ?thesis using m s1 s2 l1 by auto
  qed
qed

text \<open>
  Claim C9. In a reliable environment, \<open>Migrate\<close> with the empty list on a database whose
  ledger is empty or absent returns nil. Its trace is the existence check, then
  \<open>CREATE TABLE\<close> exactly when the table was absent, then one transaction that begins,
  locks, selects and is rolled back: no migration ran and no row was inserted. The
  store it leaves differs from the one it found only in that the ledger table exists,
  empty. \<open>SchemaTest\<close>, once its configuration and the database have passed its checks,
  starts its loop in exactly that world: all the call has done is create the ledger
  table. And in every environment and every database, \<open>Migrate\<close> with the empty list
  leaves the schema and the rows of the ledger as they were, and adds to the trace
  nothing but the existence check, the creation of the table and the calls of a
  transaction that is rolled back.
\<close>

theorem Migrate_empty_list_bootstraps:
  "(reliable env \<and> ledger_rows (store w) = [] \<longrightarrow>
      Migrate env [] w =
        (\<lparr>store = (store w)\<lparr>migration_table := Some []\<rparr>,
          trace = trace w @
            (if migration_table (store w) = None then [EvCheckTable, EvCreateTable]
             else [EvCheckTable]) @ [EvBegin, EvLock, EvSelect, EvRollback]\<rparr>, None))
   \<and> (reliable env \<and> '''' \<notin> set [Host c, Port c, Database c, User c, Password c] \<and>
      \<not> user_relations env (store w) \<longrightarrow>
        SchemaTest env c ms w =
          SchemaTest_loop (\<lambda>w idx. SchemaTest_step env c ms idx w) [0..<length ms]
            \<lparr>store = (store w)\<lparr>migration_table := Some []\<rparr>,
              trace = trace w @ [EvConnect (postgresConnectionString c), EvCatalogQuery,
                EvCheckTable, EvCreateTable, EvBegin, EvLock, EvSelect, EvRollback]\<rparr>)
   \<and> schema (store (fst (Migrate env [] w))) = schema (store w)
   \<and> ledger_rows (store (fst (Migrate env [] w))) = ledger_rows (store w)
   \<and> (\<exists>new. trace (fst (Migrate env [] w)) = trace w @ new
          \<and> set new \<subseteq> {EvCheckTable, EvCreateTable, EvBegin, EvLock, EvSelect, EvRollback})"
proof (intro conjI impI)
  assume "reliable env \<and> ledger_rows (store w) = []"
  then show "Migrate env [] w =
           (\<lparr>store = (store w)\<lparr>migration_table := Some []\<rparr>,
             trace = trace w @
               (if migration_table (store w) = None then [EvCheckTable, EvCreateTable]
                else [EvCheckTable]) @ [EvBegin, EvLock, EvSelect, EvRollback]\<rparr>, None)"
    by (simp add: Migrate_empty_list)
next
  assume h: "reliable env \<and> '''' \<notin> set [Host c, Port c, Database c, User c, Password c] \<and>
          \<not> user_relations env (store w)"
  then have r: "reliable env" by simp
  let ?w1 = "emit (EvConnect (postgresConnectionString c)) w"
  let ?w2 = "w\<lparr>trace := trace w @ [EvConnect (postgresConnectionString c), EvCatalogQuery]\<rparr>"
  have f: "fault env (trace ?w1) = None" using r by (simp add: reliable_def)
  have v: "verifyNoTables env ?w1 = (?w2, None)"
    using h by (simp add: verifyNoTables_def emit_def Let_def reliable_def)
  from h have n: "migration_table (store ?w2) = None" by (simp add: user_relations_def)
  then have "ledger_rows (store ?w2) = []" by (simp add: ledger_rows_def)
  from Migrate_empty_list [OF r this] n
  have m: "Migrate env [] ?w2 =
     (\<lparr>store = (store w)\<lparr>migration_table := Some []\<rparr>,
       trace = trace w @ [EvConnect (postgresConnectionString c), EvCatalogQuery,
                    EvCheckTable, EvCreateTable, EvBegin, EvLock, EvSelect, EvRollback]\<rparr>, None)"
    by simp
  from h have c: "'''' \<notin> set [Host c, Port c, Database c, User c, Password c]" by simp
  show "SchemaTest env c ms w =
              SchemaTest_loop (\<lambda>w idx. SchemaTest_step env c ms idx w) [0..<length ms]
                \<lparr>store = (store w)\<lparr>migration_table := Some []\<rparr>,
                  trace = trace w @ [EvConnect (postgresConnectionString c), EvCatalogQuery,
                    EvCheckTable, EvCreateTable, EvBegin, EvLock, EvSelect, EvRollback]\<rparr>"
    using c by (simp only: SchemaTest_def Let_def f v if_False) (simp add: m)
next
  show "schema (store (fst (Migrate env [] w))) = schema (store w)"
    and "ledger_rows (store (fst (Migrate env [] w))) = ledger_rows (store w)"
    and "\<exists>new. trace (fst (Migrate env [] w)) = trace w @ new
          \<and> set new \<subseteq> {EvCheckTable, EvCreateTable, EvBegin, EvLock, EvSelect, EvRollback}"
    using Migrate_empty_list_any [of env w] by simp_all
qed

theorem Migrate_empty_list_bootstraps_witness:
  "reliable sql_log_env \<and> ledger_rows (store fresh_world) = []
   \<and> Migrate sql_log_env [] fresh_world =
       (\<lparr>store = \<lparr>migration_table = Some [], schema = []\<rparr>,
         trace = [EvCheckTable, EvCreateTable, EvBegin, EvLock, EvSelect, EvRollback]\<rparr>, None)
   \<and> Migrate sql_log_env [] empty_world =
       (\<lparr>store = \<lparr>migration_table = Some [], schema = []\<rparr>,
         trace = [EvCheckTable, EvBegin, EvLock, EvSelect, EvRollback]\<rparr>, None)
   \<and> SchemaTest sql_log_env schema_test_config [] fresh_world =
       (\<lparr>store = \<lparr>migration_table = Some [], schema = []\<rparr>,
         trace = [EvConnect (postgresConnectionString schema_test_config), EvCatalogQuery,
                  EvCheckTable, EvCreateTable, EvBegin, EvLock, EvSelect, EvRollback]\<rparr>, None)"
proof -
  have r: "reliable sql_log_env" by (simp add: reliable_def sql_log_env_def)
  have a: "ledger_rows (store fresh_world) = []" "ledger_rows (store empty_world) = []"
    by (simp_all add: ledger_rows_def fresh_world_def empty_world_def)
  have c: "'''' \<notin> set [Host schema_test_config, Port schema_test_config,
      Database schema_test_config, User schema_test_config, Password schema_test_config]
      \<and> \<not> user_relations sql_log_env (store fresh_world)"
    by (simp add: schema_test_config_def user_relations_def sql_log_env_def fresh_world_def)
  from Migrate_empty_list_bootstraps [of sql_log_env fresh_world schema_test_config "[]"] r a c
  have "Migrate sql_log_env [] fresh_world =
       (\<lparr>store = \<lparr>migration_table = Some [], schema = []\<rparr>,
         trace = [EvCheckTable, EvCreateTable, EvBegin, EvLock, EvSelect, EvRollback]\<rparr>, None)"
    and "SchemaTest sql_log_env schema_test_config [] fresh_world =
       (\<lparr>store = \<lparr>migration_table = Some [], schema = []\<rparr>,
         trace = [EvConnect (postgresConnectionString schema_test_config), EvCatalogQuery,
                  EvCheckTable, EvCreateTable, EvBegin, EvLock, EvSelect, EvRollback]\<rparr>, None)"
    by (simp_all add: fresh_world_def)
  moreover
  from Migrate_empty_list_bootstraps [of sql_log_env empty_world schema_test_config "[]"] r a
  have "Migrate sql_log_env [] empty_world =
       (\<lparr>store = \<lparr>migration_table = Some [], schema = []\<rparr>,
         trace = [EvCheckTable, EvBegin, EvLock, EvSelect, EvRollback]\<rparr>, None)"
    by (simp add: empty_world_def)
  ultimately show ?thesis using r a by simp
qed

text \<open>
  The option \<open>--restrict-key=\<close> in an argument vector, if any; and a dumper as the comment
  in \<open>src/unnamed/part_003\<close> describes it ("if not specified, will be random, so not
  repeatable"): it prints the restrict key it was given, and one of its own making,
  different at every invocation, when it was given none.
\<close>

definition restrict_key :: "string list \<Rightarrow> string option" where
  "restrict_key args =
     (case filter (\<lambda>a. take 15 a = ''--restrict-key='') args of
        [] \<Rightarrow> None
      | a # _ \<Rightarrow> Some (drop 15 a))"

definition pg17_env :: "string list env" where
  "pg17_env =
     \<lparr>exec = (\<lambda>sql tx. Inr (tx\<lparr>schema := schema tx @ [sql]\<rparr>)),
      fault = (\<lambda>tr. None),
      cut = (\<lambda>tr. None),
      relations = (\<lambda>s. s \<noteq> []),
      pg_dump = (\<lambda>args db tr.
        ''restrict '' @
        (case restrict_key args of
           Some k \<Rightarrow> k
         | None \<Rightarrow> replicate (length tr) CHR ''r'') @ concat (schema db))\<rparr>"

text \<open>
  Claim C7 says that \<open>dump\<close> pins every option of the dumper that varies between
  invocations. \<open>dump\<close> of \<open>src/migrations/verify.go\<close>, on the configuration of the
  schema-test driver, runs \<open>pg_dump\<close> with no \<open>--restrict-key\<close>; the copy in
  \<open>src/unnamed/part_003\<close> passes \<open>--restrict-key=key\<close>.
\<close>

theorem dump_restrict_key_not_pinned:
  "pg_dump_args schema_test_config
     = [''-s'', ''-h'', ''localhost'', ''-p'', ''5432'', ''-U'', ''postgres'', ''postgres'']
   \<and> pg_dump_args_part_003 schema_test_config
     = [''-s'', ''-h'', ''localhost'', ''-p'', ''5432'', ''-U'', ''postgres'',
        ''--restrict-key=key'', ''postgres'']
   \<and> restrict_key (pg_dump_args schema_test_config) = None
   \<and> restrict_key (pg_dump_args_part_003 schema_test_config) = Some ''key''
   \<and> fst (dump sql_log_env schema_test_config fresh_world) =
       fresh_world\<lparr>trace := [EvMkdirTemp,
          EvWritePgpass ''localhost:5432:postgres:postgres:postgres'',
          EvPgDump [''-s'', ''-h'', ''localhost'', ''-p'', ''5432'', ''-U'', ''postgres'',
                    ''postgres''],
          EvRemoveAll]\<rparr>"
  by (simp add: pg_dump_args_def pg_dump_args_part_003_def schema_test_config_def
      restrict_key_def dump_def dump_with_def emit_def Let_def sql_log_env_def pgpass_def
      fresh_world_def)

text \<open>
  With the dumper above, two successive dumps of the same empty schema differ under
  \<open>dump\<close> of \<open>src/migrations/verify.go\<close> and agree under the copy that pins the key.
\<close>

lemma dump_twice_pg17:
  "snd (dump pg17_env schema_test_config fresh_world)
     \<noteq> snd (dump pg17_env schema_test_config
              (fst (dump pg17_env schema_test_config fresh_world)))
   \<and> snd (dump_part_003 pg17_env schema_test_config fresh_world)
     = snd (dump_part_003 pg17_env schema_test_config
              (fst (dump_part_003 pg17_env schema_test_config fresh_world)))"
  by (simp add: pg_dump_args_def pg_dump_args_part_003_def schema_test_config_def
      restrict_key_def dump_def dump_part_003_def dump_with_def emit_def Let_def pg17_env_def
      pgpass_def fresh_world_def)

end
